theory Spec2Isabelle
  imports Main "HOL-Library.Word"
begin

section \<open>JavaScript values as the three scripts see them\<close>

text \<open>
  A JavaScript string is a sequence of UTF-16 code units; the regular expression of the
  reconstructor, \<^verbatim>\<open>trim()\<close> and \<^verbatim>\<open>replace\<close> all work on code units.
  \<open>ascii\<close> turns an ASCII literal into such a string.
\<close>

type_synonym jschar = "16 word"
type_synonym jstring = "jschar list"

definition ascii :: "string \<Rightarrow> jstring" where
  "ascii s = map of_char s"

text \<open>
  The values that \<^verbatim>\<open>JSON.parse\<close> puts into the fields of a record. The model
  covers flat records: a field holds null, a boolean, a number or a string. A number is an
  integer \<open>n\<close> with \<open>-2\<^sup>5\<^sup>3 \<le> n < 2\<^sup>5\<^sup>3\<close>, kept as the 54-bit word \<open>w\<close> with
  \<open>sint w = n\<close>: each of these is a JavaScript number, two of them are equal exactly when
  the words are, and each prints as its decimal digits. Every other number (a fraction,
  or an integer from \<open>2\<^sup>5\<^sup>3\<close> on, which JavaScript prints with the shortest digits that
  read back, and in exponent form from \<open>10\<^sup>2\<^sup>1\<close>), and arrays or objects nested inside a
  field, are outside the model.
\<close>

type_synonym safe_integer = "54 word"

datatype json = JNull | JBool bool | JNum safe_integer | JStr jstring

text \<open>
  An object is the list of its own properties in the order \<^verbatim>\<open>Object.keys\<close>
  yields them.
\<close>

type_synonym jsobject = "(jstring \<times> json) list"

fun truthy :: "json \<Rightarrow> bool" where
  "truthy JNull = False"
| "truthy (JBool b) = b"
| "truthy (JNum n) = (n \<noteq> 0)"
| "truthy (JStr s) = (s \<noteq> [])"

text \<open>
  \<^verbatim>\<open>obj.name\<close> for a name that the object owns or that \<^verbatim>\<open>Object.prototype\<close>
  does not define (\<^verbatim>\<open>uuid\<close>, \<^verbatim>\<open>title\<close>, \<^verbatim>\<open>body\<close>, and every key
  that ends in \<^verbatim>\<open>_title\<close> or \<^verbatim>\<open>_body\<close>): the own property, or
  \<^verbatim>\<open>undefined\<close>, which is \<open>None\<close> and falsy.
\<close>

definition get_own :: "jsobject \<Rightarrow> jstring \<Rightarrow> json option" where
  "get_own obj k = map_of obj k"

fun is_truthy :: "json option \<Rightarrow> bool" where
  "is_truthy None = False"
| "is_truthy (Some v) = truthy v"

text \<open>
  \<^verbatim>\<open>obj[k] = v\<close> on an object whose keys are not array indices: an existing
  property keeps its place and takes the new value, a new one goes last. (The keys the
  flattener writes end in \<^verbatim>\<open>_title\<close> or \<^verbatim>\<open>_body\<close>, so none is an array
  index, which JavaScript would list first.)
\<close>

fun set_prop :: "jsobject \<Rightarrow> jstring \<Rightarrow> json \<Rightarrow> jsobject" where
  "set_prop [] k v = [(k, v)]"
| "set_prop ((k', v') # ps) k v =
     (if k' = k then (k, v) # ps else (k', v') # set_prop ps k v)"

text \<open>Decimal digits of a number, as a template literal prints an integer.\<close>

fun show_nat :: "nat \<Rightarrow> jstring" where
  "show_nat n =
     (if n < 10 then [of_nat (48 + n)]
      else show_nat (n div 10) @ [of_nat (48 + n mod 10)])"

declare show_nat.simps [simp del]

definition show_int :: "int \<Rightarrow> jstring" where
  "show_int i = (if i < 0 then ascii ''-'' @ show_nat (nat (- i)) else show_nat (nat i))"

text \<open>
  The string a template literal \<^verbatim>\<open>`${v}`\<close> makes of a value. The numbers of the
  model are exact integers below \<open>2\<^sup>5\<^sup>3\<close> in magnitude (or \<open>-2\<^sup>5\<^sup>3\<close> itself), and
  JavaScript prints such a number as its decimal digits, with a minus sign when negative.
\<close>

fun to_string :: "json \<Rightarrow> jstring" where
  "to_string JNull = ascii ''null''"
| "to_string (JBool b) = (if b then ascii ''true'' else ascii ''false'')"
| "to_string (JNum n) = show_int (sint n)"
| "to_string (JStr s) = s"

text \<open>
  \<^verbatim>\<open>obj[name]\<close> for a computed name, as the consolidator reads the fields it has
  detected: a name that the object does not own is looked up in
  \<^verbatim>\<open>Object.prototype\<close>, whose members are functions (and, for
  \<^verbatim>\<open>__proto__\<close>, the prototype object): truthy values that are not strings.
\<close>

datatype jsval = Undefined | Json json | ProtoMember

definition object_prototype_names :: "jstring list" where
  "object_prototype_names = map ascii
     [''constructor'', ''hasOwnProperty'', ''isPrototypeOf'', ''propertyIsEnumerable'',
      ''toLocaleString'', ''toString'', ''valueOf'', ''__proto__'',
      ''__defineGetter__'', ''__defineSetter__'', ''__lookupGetter__'', ''__lookupSetter__'']"

definition get_prop :: "jsobject \<Rightarrow> jstring \<Rightarrow> jsval" where
  "get_prop obj k =
     (case map_of obj k of
        Some v \<Rightarrow> Json v
      | None \<Rightarrow> if k \<in> set object_prototype_names then ProtoMember else Undefined)"

fun js_truthy :: "jsval \<Rightarrow> bool" where
  "js_truthy Undefined = False"
| "js_truthy (Json v) = truthy v"
| "js_truthy ProtoMember = True"

datatype error = TypeError | NoValidSourceItems

section \<open>json-consolidation-to-xliff.js: escapeXml\<close>

text \<open>
  \<^verbatim>\<open>text.replace(/c/g, r)\<close> for a single character \<open>c\<close> and a replacement
  \<open>r\<close> without \<^verbatim>\<open>$\<close>.
\<close>

definition replace_all :: "jschar \<Rightarrow> jstring \<Rightarrow> jstring \<Rightarrow> jstring" where
  "replace_all c r text = concat (map (\<lambda>x. if x = c then r else [x]) text)"

text \<open>
  \<^verbatim>\<open>
  function escapeXml(text) {
      if (!text) return '';
      return text
          .replace(/&/g, '&amp;')
          .replace(/</g, '&lt;')
          .replace(/>/g, '&gt;')
          .replace(/"/g, '&quot;')
          .replace(/'/g, '&apos;');
  }
  \<close>
  A truthy argument that is not a string has no \<^verbatim>\<open>replace\<close> method: the call
  throws a TypeError.
\<close>

definition escape_string :: "jstring \<Rightarrow> jstring" where
  "escape_string text =
     replace_all 0x27 (ascii ''&apos;'')
       (replace_all 0x22 (ascii ''&quot;'')
         (replace_all 0x3E (ascii ''&gt;'')
           (replace_all 0x3C (ascii ''&lt;'')
             (replace_all 0x26 (ascii ''&amp;'') text))))"

fun escapeXml :: "jsval \<Rightarrow> error + jstring" where
  "escapeXml Undefined = Inr []"
| "escapeXml (Json (JStr s)) = (if s = [] then Inr [] else Inr (escape_string s))"
| "escapeXml (Json v) = (if truthy v then Inl TypeError else Inr [])"
| "escapeXml ProtoMember = Inl TypeError"

section \<open>json-to-xliff.js: the flattening loop\<close>

text \<open>
  The file \<^verbatim>\<open>src/unnamed/part_000\<close> holds two scripts, which their usage lines name
  \<^verbatim>\<open>json-to-xliff.js\<close> and \<^verbatim>\<open>xliff-to-json.js\<close>. This is the loop of the first
  (lines 58 to 70):
  \<^verbatim>\<open>
  const sourceJson = {};
  const targetJson = {};
  jsonData.forEach((item) => {
      if (item.uuid && item.title && item.body) {
          sourceJson[`${item.uuid}_title`] = item.title;
          sourceJson[`${item.uuid}_body`] = item.body;
          targetJson[`${item.uuid}_title`] = '';
          targetJson[`${item.uuid}_body`] = '';
      }
  });
  \<close>
  \<open>flatten_item\<close> is the callback, on the pair of the two objects built so far.
\<close>

definition flatten_item :: "jsobject \<times> jsobject \<Rightarrow> jsobject \<Rightarrow> jsobject \<times> jsobject" where
  "flatten_item acc item =
     (case acc of (sourceJson, targetJson) \<Rightarrow>
        (case (get_own item (ascii ''uuid''), get_own item (ascii ''title''),
               get_own item (ascii ''body'')) of
           (Some uuid, Some title, Some body) \<Rightarrow>
             if truthy uuid \<and> truthy title \<and> truthy body then
               (set_prop (set_prop sourceJson (to_string uuid @ ascii ''_title'') title)
                  (to_string uuid @ ascii ''_body'') body,
                set_prop (set_prop targetJson (to_string uuid @ ascii ''_title'') (JStr []))
                  (to_string uuid @ ascii ''_body'') (JStr []))
             else (sourceJson, targetJson)
         | _ \<Rightarrow> (sourceJson, targetJson)))"

definition flatten :: "jsobject list \<Rightarrow> jsobject \<times> jsobject" where
  "flatten jsonData = foldl flatten_item ([], []) jsonData"

text \<open>The guard of the callback: all three of uuid, title and body are truthy.\<close>

definition qualifies :: "jsobject \<Rightarrow> bool" where
  "qualifies item \<longleftrightarrow>
     is_truthy (get_own item (ascii ''uuid'')) \<and> is_truthy (get_own item (ascii ''title''))
     \<and> is_truthy (get_own item (ascii ''body''))"

text \<open>
  The identifier of a record as the keys spell it, and the entries a qualifying record
  writes to the two objects, in the order it writes them.
\<close>

definition uuid_text :: "jsobject \<Rightarrow> jstring" where
  "uuid_text item = (case get_own item (ascii ''uuid'') of Some u \<Rightarrow> to_string u | None \<Rightarrow> [])"

definition source_entries :: "jsobject \<Rightarrow> (jstring \<times> json) list" where
  "source_entries item =
     (case (get_own item (ascii ''title''), get_own item (ascii ''body'')) of
        (Some title, Some body) \<Rightarrow>
          [(uuid_text item @ ascii ''_title'', title), (uuid_text item @ ascii ''_body'', body)]
      | _ \<Rightarrow> [])"

definition target_entries :: "jsobject \<Rightarrow> (jstring \<times> json) list" where
  "target_entries item =
     [(uuid_text item @ ascii ''_title'', JStr []), (uuid_text item @ ascii ''_body'', JStr [])]"

section \<open>xliff-to-json.js: the reconstruction loops\<close>

text \<open>
  The second script of \<^verbatim>\<open>src/unnamed/part_000\<close> (lines 226 to 260).
  \<^verbatim>\<open>key.match(/^([a-f0-9-]{36})_(title|body)$/)\<close>: the two groups of the match, or
  \<open>None\<close>. The pattern has no flag: its letters are lower case only.
\<close>

definition is_uuid_char :: "jschar \<Rightarrow> bool" where
  "is_uuid_char c \<longleftrightarrow> (0x61 \<le> c \<and> c \<le> 0x66) \<or> (0x30 \<le> c \<and> c \<le> 0x39) \<or> c = 0x2D"

definition uuidMatch :: "jstring \<Rightarrow> (jstring \<times> jstring) option" where
  "uuidMatch key =
     (let uuid = take 36 key; rest = drop 36 key in
      if length uuid = 36 \<and> list_all is_uuid_char uuid
         \<and> (rest = ascii ''_title'' \<or> rest = ascii ''_body'')
      then Some (uuid, drop 1 rest) else None)"

text \<open>\<^verbatim>\<open>v || ''\<close> on what reading a property gave.\<close>

fun or_empty :: "json option \<Rightarrow> json" where
  "or_empty None = JStr []"
| "or_empty (Some v) = (if truthy v then v else JStr [])"

text \<open>
  \<^verbatim>\<open>
  const transformedData = [];
  const processedUuids = new Set();
  Object.keys(flatJsonData).forEach(key => {
      const uuidMatch = key.match(/^([a-f0-9-]{36})_(title|body)$/);
      if (uuidMatch) {
          const [, uuid, field] = uuidMatch;
          if (!processedUuids.has(uuid)) {
              const titleKey = `${uuid}_title`;
              const bodyKey = `${uuid}_body`;
              if (flatJsonData[titleKey] !== undefined || flatJsonData[bodyKey] !== undefined) {
                  transformedData.push({
                      title: flatJsonData[titleKey] || '',
                      body: flatJsonData[bodyKey] || '',
                      uuid: uuid
                  });
                  processedUuids.add(uuid);
              }
          }
      }
  });
  \<close>
\<close>

definition rebuilt_record :: "jsobject \<Rightarrow> jstring \<Rightarrow> jsobject" where
  "rebuilt_record flatJsonData uuid =
     [(ascii ''title'', or_empty (get_own flatJsonData (uuid @ ascii ''_title''))),
      (ascii ''body'', or_empty (get_own flatJsonData (uuid @ ascii ''_body''))),
      (ascii ''uuid'', JStr uuid)]"

definition reconstruct_key ::
  "jsobject \<Rightarrow> jsobject list \<times> jstring set \<Rightarrow> jstring \<Rightarrow> jsobject list \<times> jstring set" where
  "reconstruct_key flatJsonData st key =
     (case st of (transformedData, processedUuids) \<Rightarrow>
        (case uuidMatch key of
           None \<Rightarrow> (transformedData, processedUuids)
         | Some (uuid, field) \<Rightarrow>
             if uuid \<notin> processedUuids then
               (let titleKey = uuid @ ascii ''_title''; bodyKey = uuid @ ascii ''_body'' in
                if get_own flatJsonData titleKey \<noteq> None \<or> get_own flatJsonData bodyKey \<noteq> None
                then (transformedData @ [rebuilt_record flatJsonData uuid],
                      insert uuid processedUuids)
                else (transformedData, processedUuids))
             else (transformedData, processedUuids)))"

text \<open>
  \<^verbatim>\<open>
  if (transformedData.length === 0) {
      Object.keys(flatJsonData).forEach((key, index) => {
          transformedData.push({
              title: key,
              body: flatJsonData[key],
              uuid: `generated-${Date.now()}-${index}`
          });
      });
  }
  \<close>
  \<open>clock index\<close> is what \<^verbatim>\<open>Date.now()\<close> returns in the iteration \<open>index\<close>: the
  milliseconds since the epoch, an integer (of magnitude at most \<open>8.64 \<times> 10\<^sup>1\<^sup>5\<close>, which
  prints in decimal). The key is one of the object's own, so the
  read of \<^verbatim>\<open>flatJsonData[key]\<close> is defined (a property whose value is
  \<^verbatim>\<open>undefined\<close> is not written by \<^verbatim>\<open>JSON.stringify\<close>).
\<close>

definition generated_uuid :: "(nat \<Rightarrow> int) \<Rightarrow> nat \<Rightarrow> jstring" where
  "generated_uuid clock index =
     ascii ''generated-'' @ show_int (clock index) @ ascii ''-'' @ show_nat index"

definition fallback_record :: "(nat \<Rightarrow> int) \<Rightarrow> jsobject \<Rightarrow> nat \<Rightarrow> jstring \<Rightarrow> jsobject" where
  "fallback_record clock flatJsonData index key =
     (case get_own flatJsonData key of
        Some v \<Rightarrow>
          [(ascii ''title'', JStr key), (ascii ''body'', v),
           (ascii ''uuid'', JStr (generated_uuid clock index))]
      | None \<Rightarrow>
          [(ascii ''title'', JStr key), (ascii ''uuid'', JStr (generated_uuid clock index))])"

definition reconstruct :: "(nat \<Rightarrow> int) \<Rightarrow> jsobject \<Rightarrow> jsobject list" where
  "reconstruct clock flatJsonData =
     (let keys = map fst flatJsonData;
          transformedData = fst (foldl (reconstruct_key flatJsonData) ([], {}) keys)
      in if length transformedData = 0
         then map (\<lambda>(index, key). fallback_record clock flatJsonData index key)
                (enumerate 0 keys)
         else transformedData)"

text \<open>
  The identifiers of the keys that match, in key order, and the same list with only the
  first occurrence of each identifier kept.
\<close>

definition matched_uuids :: "jstring list \<Rightarrow> jstring list" where
  "matched_uuids keys =
     concat (map (\<lambda>key. case uuidMatch key of None \<Rightarrow> [] | Some (uuid, field) \<Rightarrow> [uuid]) keys)"

definition first_occurrences :: "'a list \<Rightarrow> 'a list" where
  "first_occurrences xs = rev (remdups (rev xs))"

text \<open>
  The canonical textual shape of a UUID, from the words of the specification: 36
  characters, hyphens at the positions 8, 13, 18 and 23, hexadecimal digits of either
  case everywhere else.
\<close>

definition is_hex_digit :: "jschar \<Rightarrow> bool" where
  "is_hex_digit c \<longleftrightarrow>
     (0x30 \<le> c \<and> c \<le> 0x39) \<or> (0x61 \<le> c \<and> c \<le> 0x66) \<or> (0x41 \<le> c \<and> c \<le> 0x46)"

definition canonical_uuid :: "jstring \<Rightarrow> bool" where
  "canonical_uuid u \<longleftrightarrow>
     length u = 36
     \<and> list_all (\<lambda>i. if i \<in> {8, 13, 18, 23} then u ! i = 0x2D else is_hex_digit (u ! i))
          [0..<36]"

section \<open>json-consolidation-to-xliff.js: generateXliffContent\<close>

text \<open>
  \<^verbatim>\<open>s.trim()\<close> removes the white space and line terminators of ECMAScript from both
  ends of a string.
\<close>

definition is_js_space :: "jschar \<Rightarrow> bool" where
  "is_js_space c \<longleftrightarrow>
     c \<in> {0x09, 0x0A, 0x0B, 0x0C, 0x0D, 0x20, 0xA0, 0x1680, 0x2028, 0x2029, 0x202F, 0x205F,
          0x3000, 0xFEFF}
     \<or> (0x2000 \<le> c \<and> c \<le> 0x200A)"

definition trim :: "jstring \<Rightarrow> jstring" where
  "trim s = rev (dropWhile is_js_space (rev (dropWhile is_js_space s)))"

text \<open>
  \<^verbatim>\<open>
  const targetMap = new Map();
  targetData.forEach(item => {
      if (item.uuid) {
          targetMap.set(item.uuid, item);
      }
  });
  \<close>
  A Map compares the keys of the model (strings, numbers, booleans) by value.
\<close>

definition targetMap_set :: "(json \<rightharpoonup> jsobject) \<Rightarrow> jsobject \<Rightarrow> (json \<rightharpoonup> jsobject)" where
  "targetMap_set m item =
     (case get_own item (ascii ''uuid'') of
        Some uuid \<Rightarrow> if truthy uuid then m(uuid \<mapsto> item) else m
      | None \<Rightarrow> m)"

definition targetMap :: "jsobject list \<Rightarrow> (json \<rightharpoonup> jsobject)" where
  "targetMap targetData = foldl targetMap_set Map.empty targetData"

text \<open>
  \<^verbatim>\<open>
  const firstSourceItem = sourceData.find(item => item.uuid);
  if (!firstSourceItem) {
      throw new Error('No valid source items found with uuid field');
  }
  const translatableFields = Object.keys(firstSourceItem).filter(key =>
      key !== 'uuid' &&
      typeof firstSourceItem[key] === 'string' &&
      firstSourceItem[key].trim() !== ''
  );
  \<close>
\<close>

definition firstSourceItem :: "jsobject list \<Rightarrow> jsobject option" where
  "firstSourceItem sourceData = find (\<lambda>item. is_truthy (get_own item (ascii ''uuid''))) sourceData"

definition translatableFields :: "jsobject \<Rightarrow> jstring list" where
  "translatableFields first =
     filter (\<lambda>key. key \<noteq> ascii ''uuid''
                  \<and> (case get_prop first key of Json (JStr s) \<Rightarrow> trim s \<noteq> [] | _ \<Rightarrow> False))
       (map fst first)"

text \<open>
  What the loop over the source records changes: the text of the units, their number, and
  the lines given to \<^verbatim>\<open>console.warn\<close>.
\<close>

record gen_state =
  transUnits :: jstring
  unitCount :: nat
  warnings :: "jstring list"

definition newline :: jstring where
  "newline = [0x0A]"

text \<open>The template of one unit, around the five escaped texts.\<close>

definition trans_unit :: "jstring \<Rightarrow> jstring \<Rightarrow> jstring \<Rightarrow> jstring \<Rightarrow> jstring \<Rightarrow> jstring" where
  \<open>trans_unit unitId sourceText targetText fieldName uuid =
     ascii ''    <trans-unit id="'' @ unitId @ ascii ''">'' @ newline
     @ ascii ''      <source>'' @ sourceText @ ascii ''</source>'' @ newline
     @ ascii ''      <target>'' @ targetText @ ascii ''</target>'' @ newline
     @ ascii ''      <note>'' @ fieldName @ ascii '' for UUID: '' @ uuid @ ascii ''</note>''
     @ newline
     @ ascii ''    </trans-unit>'' @ newline\<close>

text \<open>An exception ends the run: the steps after it are not made.\<close>

fun bind_err :: "error + 'a \<Rightarrow> ('a \<Rightarrow> error + 'b) \<Rightarrow> error + 'b" where
  "bind_err (Inl e) f = Inl e"
| "bind_err (Inr x) f = f x"

fun for_each :: "('s \<Rightarrow> 'a \<Rightarrow> error + 's) \<Rightarrow> 's \<Rightarrow> 'a list \<Rightarrow> error + 's" where
  "for_each f st [] = Inr st"
| "for_each f st (x # xs) = bind_err (f st x) (\<lambda>st'. for_each f st' xs)"

text \<open>
  \<^verbatim>\<open>
  translatableFields.forEach(fieldName => {
      const sourceText = sourceItem[fieldName];
      const targetText = targetItem[fieldName];
      if (!sourceText || typeof sourceText !== 'string' || sourceText.trim() === '') {
          return;
      }
      const unitId = `${sourceItem.uuid}_${fieldName}`;
      transUnits += `    <trans-unit id="${escapeXml(unitId)}">
        <source>${escapeXml(sourceText)}</source>
        <target>${escapeXml(targetText || '')}</target>
        <note>${escapeXml(fieldName)} for UUID: ${escapeXml(sourceItem.uuid)}</note>
      </trans-unit>
  `;
      unitCount++;
  });
  \<close>
  \<open>uuid\<close> is the value of \<^verbatim>\<open>sourceItem.uuid\<close>, which is truthy here.
\<close>

definition emit_field ::
  "json \<Rightarrow> jsobject \<Rightarrow> jsobject \<Rightarrow> gen_state \<Rightarrow> jstring \<Rightarrow> error + gen_state" where
  "emit_field uuid sourceItem targetItem st fieldName =
     (let sourceText = get_prop sourceItem fieldName;
          targetText = get_prop targetItem fieldName in
      case sourceText of
        Json (JStr s) \<Rightarrow>
          if s = [] \<or> trim s = [] then Inr st
          else
            (let unitId = to_string uuid @ ascii ''_'' @ fieldName in
             bind_err (escapeXml (Json (JStr unitId))) (\<lambda>e1.
             bind_err (escapeXml (Json (JStr s))) (\<lambda>e2.
             bind_err (escapeXml (if js_truthy targetText then targetText else Json (JStr []))) (\<lambda>e3.
             bind_err (escapeXml (Json (JStr fieldName))) (\<lambda>e4.
             bind_err (escapeXml (Json uuid)) (\<lambda>e5.
               Inr (st\<lparr>transUnits := transUnits st @ trans_unit e1 e2 e3 e4 e5,
                       unitCount := unitCount st + 1\<rparr>)))))))
      | _ \<Rightarrow> Inr st)"

text \<open>
  \<^verbatim>\<open>
  sourceData.forEach(sourceItem => {
      if (!sourceItem.uuid) {
          return; // Skip items without UUID
      }
      const targetItem = targetMap.get(sourceItem.uuid);
      if (!targetItem) {
          console.warn(`Warning: No target translation found for UUID: ${sourceItem.uuid}`);
          return;
      }
      translatableFields.forEach(fieldName => { ... });
  });
  \<close>
\<close>

definition warning_line :: "json \<Rightarrow> jstring" where
  "warning_line uuid = ascii ''Warning: No target translation found for UUID: '' @ to_string uuid"

definition process_item ::
  "(json \<rightharpoonup> jsobject) \<Rightarrow> jstring list \<Rightarrow> gen_state \<Rightarrow> jsobject \<Rightarrow> error + gen_state" where
  "process_item tmap fieldNames st sourceItem =
     (case get_own sourceItem (ascii ''uuid'') of
        None \<Rightarrow> Inr st
      | Some uuid \<Rightarrow>
          if \<not> truthy uuid then Inr st
          else
            (case tmap uuid of
               None \<Rightarrow> Inr (st\<lparr>warnings := warnings st @ [warning_line uuid]\<rparr>)
             | Some targetItem \<Rightarrow> for_each (emit_field uuid sourceItem targetItem) st fieldNames))"

text \<open>
  The document around the units, and the value generateXliffContent returns: its
  \<^verbatim>\<open>content\<close>, \<^verbatim>\<open>unitCount\<close> (here \<open>units\<close>) and \<^verbatim>\<open>fieldCount\<close>, and with
  them the lines that were given to \<^verbatim>\<open>console.warn\<close>.
\<close>

definition xliff_document :: "jstring \<Rightarrow> jstring \<Rightarrow> jstring \<Rightarrow> jstring" where
  \<open>xliff_document sourceLang targetLang units =
     ascii ''<?xml version="1.0" encoding="UTF-8"?>'' @ newline
     @ ascii ''<xliff version="1.2" xmlns="urn:oasis:names:tc:xliff:document:1.2">'' @ newline
     @ ascii ''  <file original="consolidated_data" source-language="'' @ sourceLang
     @ ascii ''" target-language="'' @ targetLang @ ascii ''" datatype="plaintext">'' @ newline
     @ ascii ''    <header>'' @ newline
     @ ascii ''      <tool tool-id="json-consolidation-to-xliff" tool-name="JSON Consolidation to XLIFF Converter" tool-version="1.0.0"/>''
     @ newline
     @ ascii ''    </header>'' @ newline
     @ ascii ''    <body>'' @ newline
     @ units @ ascii ''    </body>'' @ newline
     @ ascii ''  </file>'' @ newline
     @ ascii ''</xliff>''\<close>

record xliff_result =
  content :: jstring
  units :: nat
  fieldCount :: nat
  warned :: "jstring list"

definition initial_state :: gen_state where
  "initial_state = \<lparr>transUnits = [], unitCount = 0, warnings = []\<rparr>"

definition generateXliffContent ::
  "jsobject list \<Rightarrow> jsobject list \<Rightarrow> jstring \<Rightarrow> jstring \<Rightarrow> error + xliff_result" where
  "generateXliffContent sourceData targetData sourceLang targetLang =
     (case firstSourceItem sourceData of
        None \<Rightarrow> Inl NoValidSourceItems
      | Some first \<Rightarrow>
          (let fieldNames = translatableFields first in
           bind_err (for_each (process_item (targetMap targetData) fieldNames) initial_state
                       sourceData)
             (\<lambda>st. Inr \<lparr>content = xliff_document sourceLang targetLang (transUnits st),
                         units = unitCount st,
                         fieldCount = length fieldNames,
                         warned = warnings st\<rparr>)))"

text \<open>The five metacharacters, and the one-pass escaping the five passes should amount to.\<close>

definition metachars :: "jschar set" where
  "metachars = {0x26, 0x3C, 0x3E, 0x22, 0x27}"

definition escape_char :: "jschar \<Rightarrow> jstring" where
  "escape_char c =
     (if c = 0x26 then ascii ''&amp;''
      else if c = 0x3C then ascii ''&lt;''
      else if c = 0x3E then ascii ''&gt;''
      else if c = 0x22 then ascii ''&quot;''
      else if c = 0x27 then ascii ''&apos;''
      else [c])"

section \<open>Auxiliary notions for the proofs\<close>

text \<open>A run of assignments \<^verbatim>\<open>obj[k] = v\<close>, in order.\<close>

definition assign_all :: "jsobject \<Rightarrow> (jstring \<times> json) list \<Rightarrow> jsobject" where
  "assign_all obj entries = foldl (\<lambda>acc (k, v). set_prop acc k v) obj entries"

text \<open>The elements of a list not seen before, each once, in the order they first occur.\<close>

fun unseen :: "'a set \<Rightarrow> 'a list \<Rightarrow> 'a list" where
  "unseen seen [] = []"
| "unseen seen (x # xs) = (if x \<in> seen then unseen seen xs else x # unseen (insert x seen) xs)"

text \<open>The two keys of an identifier.\<close>

definition flat_keys :: "jstring \<Rightarrow> jstring list" where
  "flat_keys u = [u @ ascii ''_title'', u @ ascii ''_body'']"

text \<open>The record \<^verbatim>\<open>{"uuid": u, "title": t, "body": b}\<close> of three strings, for the examples.\<close>

definition item3 :: "string \<Rightarrow> string \<Rightarrow> string \<Rightarrow> jsobject" where
  "item3 u t b =
     [(ascii ''uuid'', JStr (ascii u)), (ascii ''title'', JStr (ascii t)),
      (ascii ''body'', JStr (ascii b))]"

text \<open>Two identifiers and two flat mappings, for the examples.\<close>

definition uuid1 :: string where "uuid1 = ''973fcb7a-154a-46f7-b7c6-134a16a46ea3''"
definition uuid2 :: string where "uuid2 = ''36ddfcee-a654-4e6d-8dd2-7761f3b3c005''"

definition mixed_flat :: jsobject where
  "mixed_flat =
     [(ascii (uuid1 @ ''_body''), JStr (ascii ''B1'')),
      (ascii ''note'', JStr (ascii ''n'')),
      (ascii (uuid2 @ ''_title''), JStr (ascii ''T2'')),
      (ascii (uuid1 @ ''_title''), JStr (ascii ''T1''))]"

definition plain_flat :: jsobject where
  "plain_flat = [(ascii ''greeting'', JStr (ascii ''hello'')), (ascii ''farewell'', JNum 7)]"

text \<open>
  The records of the round trip: a uuid of the shape the pattern accepts, and a title and
  a body that are non-empty strings; and the record the reconstructor writes for one.
\<close>

fun string_of :: "json option \<Rightarrow> jstring option" where
  "string_of (Some (JStr s)) = Some s"
| "string_of _ = None"

definition round_trip_input :: "jsobject \<Rightarrow> bool" where
  "round_trip_input item \<longleftrightarrow>
     (case string_of (get_own item (ascii ''uuid'')) of
        Some u \<Rightarrow> length u = 36 \<and> list_all is_uuid_char u | None \<Rightarrow> False)
     \<and> (case string_of (get_own item (ascii ''title'')) of
        Some t \<Rightarrow> t \<noteq> [] | None \<Rightarrow> False)
     \<and> (case string_of (get_own item (ascii ''body'')) of
        Some b \<Rightarrow> b \<noteq> [] | None \<Rightarrow> False)"

definition triple :: "jsobject \<Rightarrow> jsobject" where
  "triple item =
     (case (get_own item (ascii ''title''), get_own item (ascii ''body'')) of
        (Some t, Some b) \<Rightarrow>
          [(ascii ''title'', t), (ascii ''body'', b), (ascii ''uuid'', JStr (uuid_text item))]
      | _ \<Rightarrow> [])"

text \<open>The target record of the example of the specification: title U+AC00, body U+B098.\<close>

definition korean_target :: jsobject where
  "korean_target = [(ascii ''uuid'', JStr (ascii ''X'')), (ascii ''title'', JStr [0xAC00]),
                    (ascii ''body'', JStr [0xB098])]"

section \<open>Properties of escapeXml\<close>

lemma replace_all_concat_map:
  "replace_all c r (concat (map f s)) = concat (map (\<lambda>x. replace_all c r (f x)) s)"
  by (induction s) (simp_all add: replace_all_def)

lemma replace_all_as_concat_map:
  "replace_all c r s = concat (map (\<lambda>x. if x = c then r else [x]) s)"
  by (simp add: replace_all_def)

lemma escape_string_one_char:
  "escape_string [c] = escape_char c"
  by (simp add: escape_string_def escape_char_def replace_all_def ascii_def)

lemma escape_string_append:
  "escape_string (s @ t) = escape_string s @ escape_string t"
  by (simp add: escape_string_def replace_all_def)

lemma escape_string_one_pass:
  "escape_string s = concat (map escape_char s)"
proof (induction s)
  case Nil
  show ?case by (simp add: escape_string_def replace_all_def)
next
  case (Cons c s)
  have "escape_string (c # s) = escape_string [c] @ escape_string s"
    using escape_string_append [of "[c]" s] by simp
  with Cons show ?case by (simp add: escape_string_one_char)
qed

lemma escape_char_plain:
  "c \<notin> metachars \<Longrightarrow> escape_char c = [c]"
  by (simp add: escape_char_def metachars_def)

lemma escape_string_plain:
  "set s \<inter> metachars = {} \<Longrightarrow> escape_string s = s"
  by (induction s) (simp_all add: escape_string_one_pass escape_char_plain)

text \<open>
  C9. escapeXml returns a string for every string (it never throws there); the five
  replacements, made in the order \<^verbatim>\<open>&\<close>, \<^verbatim>\<open><\<close>, \<^verbatim>\<open>>\<close>, \<^verbatim>\<open>"\<close>,
  \<^verbatim>\<open>'\<close>, amount to escaping each character once (the \<^verbatim>\<open>&\<close> of an entity
  written by an earlier pass is never escaped again); a text with none of the five
  metacharacters comes back unchanged; \<^verbatim>\<open>a & b < c\<close> becomes
  \<^verbatim>\<open>a &amp; b &lt; c\<close>; the empty string and \<^verbatim>\<open>undefined\<close> give the empty string.
\<close>

theorem escapeXml_total_on_strings:
  "escapeXml (Json (JStr s)) = Inr (escape_string s)
   \<and> escape_string s = concat (map escape_char s)
   \<and> (set s \<inter> metachars = {} \<longrightarrow> escapeXml (Json (JStr s)) = Inr s)
   \<and> escapeXml (Json (JStr (ascii ''a & b < c''))) = Inr (ascii ''a &amp; b &lt; c'')
   \<and> escapeXml (Json (JStr [])) = Inr []
   \<and> escapeXml Undefined = Inr []"
proof -
  have total: "escapeXml (Json (JStr s)) = Inr (escape_string s)"
    by (cases s) (simp_all add: escape_string_def replace_all_def)
  have example: "escapeXml (Json (JStr (ascii ''a & b < c''))) = Inr (ascii ''a &amp; b &lt; c'')"
    by (simp add: escape_string_def replace_all_def ascii_def)
  show ?thesis
    using total example by (simp add: escape_string_one_pass [symmetric] escape_string_plain)
qed

theorem escapeXml_total_on_strings_witness:
  "set (ascii ''plain text'') \<inter> metachars = {}
   \<and> escapeXml (Json (JStr (ascii ''plain text''))) = Inr (ascii ''plain text'')"
proof -
  have h: "set (ascii ''plain text'') \<inter> metachars = {}"
    by (simp add: ascii_def metachars_def)
  with escapeXml_total_on_strings [of "ascii ''plain text''"] show ?thesis
    by blast
qed

section \<open>Properties of the key pattern\<close>

lemma uuidMatch_Some_iff:
  "uuidMatch key = Some (u, f) \<longleftrightarrow>
     length u = 36 \<and> list_all is_uuid_char u \<and> (f = ascii ''title'' \<or> f = ascii ''body'')
     \<and> key = u @ ascii ''_'' @ f"
proof
  assume m: "uuidMatch key = Some (u, f)"
  then have u: "u = take 36 key" and len: "length (take 36 key) = 36"
    and chars: "list_all is_uuid_char (take 36 key)"
    and rest: "drop 36 key = ascii ''_title'' \<or> drop 36 key = ascii ''_body''"
    and f: "f = drop 1 (drop 36 key)"
    by (auto simp: uuidMatch_def Let_def split: if_splits)
  have key: "key = take 36 key @ drop 36 key" by simp
  from rest show "length u = 36 \<and> list_all is_uuid_char u
     \<and> (f = ascii ''title'' \<or> f = ascii ''body'') \<and> key = u @ ascii ''_'' @ f"
  proof
    assume r: "drop 36 key = ascii ''_title''"
    then have "f = ascii ''title''" using f by (simp add: ascii_def)
    moreover have "key = u @ ascii ''_'' @ ascii ''title''"
      using key r u by (simp add: ascii_def)
    ultimately show ?thesis using u len chars by simp
  next
    assume r: "drop 36 key = ascii ''_body''"
    then have "f = ascii ''body''" using f by (simp add: ascii_def)
    moreover have "key = u @ ascii ''_'' @ ascii ''body''"
      using key r u by (simp add: ascii_def)
    ultimately show ?thesis using u len chars by simp
  qed
next
  assume "length u = 36 \<and> list_all is_uuid_char u
     \<and> (f = ascii ''title'' \<or> f = ascii ''body'') \<and> key = u @ ascii ''_'' @ f"
  then show "uuidMatch key = Some (u, f)"
    by (auto simp: uuidMatch_def Let_def ascii_def)
qed

text \<open>
  C3, as the code has it. A key is taken as identifier, underscore, field name exactly
  when it is 36 characters, each a lower-case hexadecimal digit or a hyphen, followed by
  \<^verbatim>\<open>_title\<close> or \<^verbatim>\<open>_body\<close>; the two groups of the match are then the 36
  characters and the field name. Nothing is asked of where the hyphens stand.
\<close>

theorem uuidMatch_iff:
  "uuidMatch key = Some (u, f) \<longleftrightarrow>
     length u = 36 \<and> list_all is_uuid_char u \<and> (f = ascii ''title'' \<or> f = ascii ''body'')
     \<and> key = u @ ascii ''_'' @ f"
  by (rule uuidMatch_Some_iff)

text \<open>
  Against C3 as stated: a canonical UUID written with capital hexadecimal digits does not
  match, and 36 hyphens, which are no UUID, do.
\<close>

theorem uuidMatch_canonical_shape_counterexample:
  "canonical_uuid (ascii ''973FCB7A-154A-46F7-B7C6-134A16A46EA3'')
   \<and> uuidMatch (ascii ''973FCB7A-154A-46F7-B7C6-134A16A46EA3_title'') = None
   \<and> \<not> canonical_uuid (ascii ''------------------------------------'')
   \<and> uuidMatch (ascii ''------------------------------------_title'')
       = Some (ascii ''------------------------------------'', ascii ''title'')"
proof -
  have "canonical_uuid (ascii ''973FCB7A-154A-46F7-B7C6-134A16A46EA3'')"
    by (simp add: canonical_uuid_def ascii_def is_hex_digit_def upt_rec)
  moreover have "uuidMatch (ascii ''973FCB7A-154A-46F7-B7C6-134A16A46EA3_title'') = None"
    by (simp add: uuidMatch_def ascii_def is_uuid_char_def)
  moreover have "\<not> canonical_uuid (ascii ''------------------------------------'')"
    by (simp add: canonical_uuid_def ascii_def is_hex_digit_def upt_rec)
  moreover have "uuidMatch (ascii ''------------------------------------_title'')
       = Some (ascii ''------------------------------------'', ascii ''title'')"
    by (simp add: uuidMatch_def ascii_def is_uuid_char_def)
  ultimately show ?thesis by blast
qed

section \<open>Properties of the flattening loop\<close>

lemma assign_all_Nil [simp]: "assign_all obj [] = obj"
  by (simp add: assign_all_def)

lemma assign_all_Cons [simp]: "assign_all obj ((k, v) # es) = assign_all (set_prop obj k v) es"
  by (simp add: assign_all_def)

lemma assign_all_append: "assign_all obj (es @ fs) = assign_all (assign_all obj es) fs"
  by (simp add: assign_all_def)

lemma map_of_set_prop: "map_of (set_prop obj k v) = (map_of obj)(k \<mapsto> v)"
  by (induction obj k v rule: set_prop.induct) auto

lemma keys_set_prop:
  "map fst (set_prop obj k v) = (if k \<in> set (map fst obj) then map fst obj else map fst obj @ [k])"
  by (induction obj k v rule: set_prop.induct) auto

lemma set_prop_fresh: "k \<notin> set (map fst obj) \<Longrightarrow> set_prop obj k v = obj @ [(k, v)]"
  by (induction obj k v rule: set_prop.induct) auto

lemma unseen_filter: "unseen S xs = filter (\<lambda>x. x \<notin> S) (first_occurrences xs)"
proof (induction xs arbitrary: S)
  case Nil
  show ?case by (simp add: first_occurrences_def)
next
  case (Cons x xs)
  have "remdups (ys @ [x]) = filter (\<lambda>y. y \<noteq> x) (remdups ys) @ [x]" for ys
    by (induction ys) auto
  then have fo: "first_occurrences (x # xs) = x # filter (\<lambda>y. y \<noteq> x) (first_occurrences xs)"
    by (simp add: first_occurrences_def remdups_filter rev_filter)
  show ?case
  proof (cases "x \<in> S")
    case True
    then have "filter (\<lambda>y. y \<notin> S) (filter (\<lambda>y. y \<noteq> x) (first_occurrences xs))
               = filter (\<lambda>y. y \<notin> S) (first_occurrences xs)"
      by (auto intro: filter_cong)
    with True show ?thesis by (simp add: fo Cons.IH)
  next
    case False
    have "filter (\<lambda>y. y \<notin> S) (filter (\<lambda>y. y \<noteq> x) (first_occurrences xs))
               = filter (\<lambda>y. y \<notin> insert x S) (first_occurrences xs)"
      by (auto intro: filter_cong)
    with False show ?thesis by (simp add: fo Cons.IH)
  qed
qed

lemma unseen_empty: "unseen {} xs = first_occurrences xs"
  by (simp add: unseen_filter)

lemma set_unseen: "set (unseen S xs) = set xs - S"
  by (induction xs arbitrary: S) auto

lemma distinct_unseen: "distinct (unseen S xs)"
  by (induction xs arbitrary: S) (auto simp: set_unseen)

lemma unseen_distinct: "distinct xs \<Longrightarrow> set xs \<inter> S = {} \<Longrightarrow> unseen S xs = xs"
  by (induction xs arbitrary: S) auto

lemma keys_assign_all:
  "map fst (assign_all obj es) = map fst obj @ unseen (set (map fst obj)) (map fst es)"
proof (induction es arbitrary: obj)
  case Nil
  show ?case by simp
next
  case (Cons e es)
  obtain k v where e: "e = (k, v)" by (cases e)
  show ?case
    by (simp add: e Cons.IH keys_set_prop)
qed

lemma map_of_assign_all:
  "map_of (assign_all obj es) = map_of obj ++ map_of (rev es)"
proof (induction es arbitrary: obj)
  case Nil
  show ?case by simp
next
  case (Cons e es)
  obtain k v where e: "e = (k, v)" by (cases e)
  show ?case
    by (rule ext) (simp add: e Cons.IH map_of_set_prop map_add_def split: option.splits)
qed

lemma assign_all_distinct:
  "distinct (map fst es) \<Longrightarrow> set (map fst obj) \<inter> set (map fst es) = {} \<Longrightarrow>
   assign_all obj es = obj @ es"
proof (induction es arbitrary: obj)
  case Nil
  show ?case by simp
next
  case (Cons e es)
  obtain k v where e: "e = (k, v)" by (cases e)
  from Cons.prems have fresh: "k \<notin> set (map fst obj)" by (auto simp: e)
  have "assign_all (obj @ [(k, v)]) es = (obj @ [(k, v)]) @ es"
    using Cons.prems by (intro Cons.IH) (auto simp: e)
  then show ?case by (simp add: e set_prop_fresh [OF fresh])
qed

lemma qualifies_iff:
  "qualifies item \<longleftrightarrow>
     (\<exists>u t b. get_own item (ascii ''uuid'') = Some u \<and> get_own item (ascii ''title'') = Some t
        \<and> get_own item (ascii ''body'') = Some b \<and> truthy u \<and> truthy t \<and> truthy b)"
  unfolding qualifies_def
  by (cases "get_own item (ascii ''uuid'')"; cases "get_own item (ascii ''title'')";
      cases "get_own item (ascii ''body'')") simp_all

lemma flatten_item_skip:
  "\<not> qualifies item \<Longrightarrow> flatten_item acc item = acc"
  by (cases acc) (auto simp: qualifies_iff flatten_item_def split: option.splits)

lemma flatten_item_qualifies:
  "qualifies item \<Longrightarrow>
   flatten_item (s, t) item = (assign_all s (source_entries item), assign_all t (target_entries item))"
  by (auto simp: qualifies_iff flatten_item_def source_entries_def target_entries_def uuid_text_def)

lemma foldl_flatten_item:
  "foldl flatten_item (s, t) items =
     (assign_all s (concat (map source_entries (filter qualifies items))),
      assign_all t (concat (map target_entries (filter qualifies items))))"
proof (induction items arbitrary: s t)
  case Nil
  show ?case by simp
next
  case (Cons item items)
  show ?case
    by (cases "qualifies item")
       (simp_all add: flatten_item_skip flatten_item_qualifies Cons.IH assign_all_append)
qed

lemma flatten_entries:
  "flatten jsonData =
     (assign_all [] (concat (map source_entries (filter qualifies jsonData))),
      assign_all [] (concat (map target_entries (filter qualifies jsonData))))"
  by (simp add: flatten_def foldl_flatten_item)

lemma title_key_neq_body_key: "u @ ascii ''_title'' \<noteq> u' @ ascii ''_body''"
proof
  assume "u @ ascii ''_title'' = u' @ ascii ''_body''"
  then have "last (u @ ascii ''_title'') = last (u' @ ascii ''_body'')" by simp
  then show False by (simp add: ascii_def)
qed

lemma set_concat_flat_keys:
  "set (concat (map flat_keys us)) =
     (\<lambda>u. u @ ascii ''_title'') ` set us \<union> (\<lambda>u. u @ ascii ''_body'') ` set us"
  by (induction us) (auto simp: flat_keys_def)

lemma length_concat_flat_keys: "length (concat (map flat_keys us)) = 2 * length us"
  by (induction us) (simp_all add: flat_keys_def)

lemma distinct_concat_flat_keys: "distinct us \<Longrightarrow> distinct (concat (map flat_keys us))"
proof (induction us)
  case Nil
  show ?case by simp
next
  case (Cons u us)
  then have "set (flat_keys u) \<inter> set (concat (map flat_keys us)) = {}"
    using title_key_neq_body_key title_key_neq_body_key [symmetric]
    by (auto simp: set_concat_flat_keys flat_keys_def)
  moreover have "distinct (flat_keys u)"
    using title_key_neq_body_key [of u u] by (simp add: flat_keys_def)
  ultimately show ?case using Cons by simp
qed

lemma card_concat_flat_keys: "card (set (concat (map flat_keys us))) = 2 * card (set us)"
proof -
  have inj1: "inj_on (\<lambda>u. u @ ascii ''_title'') (set us)" by (simp add: inj_on_def)
  have inj2: "inj_on (\<lambda>u. u @ ascii ''_body'') (set us)" by (simp add: inj_on_def)
  have disj: "(\<lambda>u. u @ ascii ''_title'') ` set us \<inter> (\<lambda>u. u @ ascii ''_body'') ` set us = {}"
    using title_key_neq_body_key by auto
  have "card (set (concat (map flat_keys us))) =
        card ((\<lambda>u. u @ ascii ''_title'') ` set us) + card ((\<lambda>u. u @ ascii ''_body'') ` set us)"
    by (simp only: set_concat_flat_keys) (rule card_Un_disjoint, simp_all add: disj)
  then show ?thesis by (simp only: card_image [OF inj1] card_image [OF inj2])
qed

lemma keys_source_entries: "qualifies item \<Longrightarrow> map fst (source_entries item) = flat_keys (uuid_text item)"
  by (auto simp: qualifies_iff source_entries_def flat_keys_def)

lemma keys_target_entries: "map fst (target_entries item) = flat_keys (uuid_text item)"
  by (simp add: target_entries_def flat_keys_def)

lemma keys_concat_source_entries:
  "map fst (concat (map source_entries (filter qualifies items))) =
     concat (map flat_keys (map uuid_text (filter qualifies items)))"
  by (induction items) (simp_all add: keys_source_entries)

lemma keys_concat_target_entries:
  "map fst (concat (map target_entries items)) = concat (map flat_keys (map uuid_text items))"
  by (induction items) (simp_all add: keys_target_entries)

lemma values_set_prop:
  "\<forall>e \<in> set obj. snd e = c \<Longrightarrow> \<forall>e \<in> set (set_prop obj k c). snd e = c"
proof (induction obj)
  case Nil
  show ?case by simp
next
  case (Cons p ps)
  obtain k' v' where p: "p = (k', v')" by (cases p)
  from Cons show ?case by (simp add: p)
qed

lemma values_assign_all:
  "\<forall>e \<in> set obj. snd e = c \<Longrightarrow> \<forall>e \<in> set es. snd e = c \<Longrightarrow> \<forall>e \<in> set (assign_all obj es). snd e = c"
proof (induction es arbitrary: obj)
  case Nil
  then show ?case by simp
next
  case (Cons e es)
  obtain k v where e: "e = (k, v)" by (cases e)
  from Cons.prems have v: "v = c" by (simp add: e)
  have one: "\<forall>x \<in> set (set_prop obj k c). snd x = c"
    using Cons.prems(1) by (rule values_set_prop)
  from Cons.prems(2) have rest: "\<forall>x \<in> set es. snd x = c" by simp
  have "\<forall>x \<in> set (assign_all (set_prop obj k c) es). snd x = c"
    using one rest by (rule Cons.IH)
  then show ?case by (simp only: e v assign_all_Cons)
qed

lemma constant_values: "\<forall>e \<in> set obj. snd e = c \<Longrightarrow> obj = map (\<lambda>k. (k, c)) (map fst obj)"
  by (induction obj) auto

lemma target_values: "\<forall>e \<in> set (concat (map target_entries items)). snd e = JStr []"
  by (auto simp: target_entries_def)

text \<open>
  C4, as the code has it. Take the qualifying records, those whose uuid, title and body are
  all truthy, in input order, and for each its identifier as the key template prints it
  (\<open>uuid_text\<close>: a string is itself, the number 5 prints as 5, true as true). The keys of
  the source object are the keys \<^verbatim>\<open>id_title\<close>, \<^verbatim>\<open>id_body\<close> of these records in
  the order they are first written; each key holds the value of the last record that
  wrote it; the target object has the same keys in the same order, each with the empty
  string; and the number of keys is twice the number of distinct printed identifiers
  among the qualifying records. When the printed identifiers are pairwise distinct, the
  source object is exactly the two entries of each qualifying record in input order, the
  target object the same keys with empty strings, and there are twice as many keys as
  qualifying records.
\<close>

theorem flatten_entries_in_order:
  "map fst (fst (flatten jsonData))
     = first_occurrences (map fst (concat (map source_entries (filter qualifies jsonData))))
   \<and> map_of (fst (flatten jsonData))
     = map_of (rev (concat (map source_entries (filter qualifies jsonData))))
   \<and> snd (flatten jsonData) = map (\<lambda>k. (k, JStr [])) (map fst (fst (flatten jsonData)))
   \<and> card (set (map fst (fst (flatten jsonData))))
     = 2 * card (set (map uuid_text (filter qualifies jsonData)))
   \<and> (distinct (map uuid_text (filter qualifies jsonData)) \<longrightarrow>
        fst (flatten jsonData) = concat (map source_entries (filter qualifies jsonData))
        \<and> snd (flatten jsonData) = concat (map target_entries (filter qualifies jsonData))
        \<and> length (fst (flatten jsonData)) = 2 * length (filter qualifies jsonData))"
proof -
  let ?Q = "filter qualifies jsonData"
  let ?S = "concat (map source_entries ?Q)"
  let ?T = "concat (map target_entries ?Q)"
  let ?K = "concat (map flat_keys (map uuid_text ?Q))"
  have src: "fst (flatten jsonData) = assign_all [] ?S"
    and tgt: "snd (flatten jsonData) = assign_all [] ?T"
    by (simp_all add: flatten_entries)
  have kS: "map fst ?S = ?K" by (rule keys_concat_source_entries)
  have kT: "map fst ?T = ?K" by (rule keys_concat_target_entries)
  have keys: "map fst (fst (flatten jsonData)) = first_occurrences (map fst ?S)"
    by (simp add: src keys_assign_all unseen_empty)
  have vals: "map_of (fst (flatten jsonData)) = map_of (rev ?S)"
    by (simp add: src map_of_assign_all)
  have same_keys: "map fst (snd (flatten jsonData)) = map fst (fst (flatten jsonData))"
    by (simp add: src tgt keys_assign_all kS kT)
  have "\<forall>e \<in> set (snd (flatten jsonData)). snd e = JStr []"
    unfolding tgt by (rule values_assign_all, simp, rule target_values)
  then have "snd (flatten jsonData) = map (\<lambda>k. (k, JStr [])) (map fst (snd (flatten jsonData)))"
    by (rule constant_values)
  then have empties: "snd (flatten jsonData) = map (\<lambda>k. (k, JStr [])) (map fst (fst (flatten jsonData)))"
    by (simp only: same_keys)
  have "set (map fst (fst (flatten jsonData))) = set ?K"
    by (simp add: src keys_assign_all set_unseen kS)
  then have card: "card (set (map fst (fst (flatten jsonData)))) = 2 * card (set (map uuid_text ?Q))"
    by (simp only: card_concat_flat_keys)
  have dist: "fst (flatten jsonData) = ?S \<and> snd (flatten jsonData) = ?T
              \<and> length (fst (flatten jsonData)) = 2 * length ?Q"
    if d: "distinct (map uuid_text ?Q)"
  proof -
    have dk: "distinct ?K" using d by (rule distinct_concat_flat_keys)
    have dS: "distinct (map fst ?S)" using dk by (simp only: kS)
    have dT: "distinct (map fst ?T)" using dk by (simp only: kT)
    have s: "assign_all [] ?S = [] @ ?S" using dS by (rule assign_all_distinct) simp
    have t: "assign_all [] ?T = [] @ ?T" using dT by (rule assign_all_distinct) simp
    have "length (map fst ?S) = 2 * length (map uuid_text ?Q)"
      by (simp only: kS length_concat_flat_keys)
    then have len: "length ?S = 2 * length ?Q" by (simp only: length_map)
    have s': "fst (flatten jsonData) = ?S" by (simp only: src s append_Nil)
    have t': "snd (flatten jsonData) = ?T" by (simp only: tgt t append_Nil)
    from s' t' len show ?thesis by (simp only: simp_thms)
  qed
  show ?thesis
  proof (intro conjI impI)
    show "map fst (fst (flatten jsonData)) = first_occurrences (map fst ?S)" by (rule keys)
    show "map_of (fst (flatten jsonData)) = map_of (rev ?S)" by (rule vals)
    show "snd (flatten jsonData) = map (\<lambda>k. (k, JStr [])) (map fst (fst (flatten jsonData)))"
      by (rule empties)
    show "card (set (map fst (fst (flatten jsonData)))) = 2 * card (set (map uuid_text ?Q))"
      by (rule card)
  next
    assume d: "distinct (map uuid_text ?Q)"
    show "fst (flatten jsonData) = ?S" using dist [OF d] by (rule conjunct1)
    show "snd (flatten jsonData) = ?T" using dist [OF d] by (elim conjE)
    show "length (fst (flatten jsonData)) = 2 * length ?Q" using dist [OF d] by (elim conjE)
  qed
qed

theorem flatten_entries_in_order_witness:
  "distinct (map uuid_text (filter qualifies
      [item3 ''u1'' ''a'' ''b'', item3 ''u2'' [] ''x'', item3 ''u3'' ''c'' ''d'']))
   \<and> fst (flatten [item3 ''u1'' ''a'' ''b'', item3 ''u2'' [] ''x'', item3 ''u3'' ''c'' ''d''])
       = [(ascii ''u1_title'', JStr (ascii ''a'')), (ascii ''u1_body'', JStr (ascii ''b'')),
          (ascii ''u3_title'', JStr (ascii ''c'')), (ascii ''u3_body'', JStr (ascii ''d''))]
   \<and> length (fst (flatten
       [item3 ''u1'' ''a'' ''b'', item3 ''u2'' [] ''x'', item3 ''u3'' ''c'' ''d''])) = 4"
  (is "?d \<and> ?f \<and> ?l")
proof -
  let ?data = "[item3 ''u1'' ''a'' ''b'', item3 ''u2'' [] ''x'', item3 ''u3'' ''c'' ''d'']"
  have d: ?d by (simp add: item3_def get_own_def ascii_def qualifies_def uuid_text_def)
  have q: "filter qualifies ?data = [item3 ''u1'' ''a'' ''b'', item3 ''u3'' ''c'' ''d'']"
    by (simp add: item3_def get_own_def ascii_def qualifies_def)
  from flatten_entries_in_order [of ?data] d
  have "fst (flatten ?data) = concat (map source_entries (filter qualifies ?data))"
    by blast
  then have f: ?f
    unfolding q by (simp add: item3_def source_entries_def uuid_text_def get_own_def ascii_def)
  then have l: ?l by simp
  from d f l show ?thesis by blast
qed

text \<open>
  Against C4 as stated: two qualifying records with the same identifier leave two keys,
  not four, and the values of the second record.
\<close>

theorem flatten_cardinality_counterexample:
  "length (filter qualifies [item3 ''u'' ''a'' ''b'', item3 ''u'' ''c'' ''d'']) = 2
   \<and> fst (flatten [item3 ''u'' ''a'' ''b'', item3 ''u'' ''c'' ''d''])
       = [(ascii ''u_title'', JStr (ascii ''c'')), (ascii ''u_body'', JStr (ascii ''d''))]
   \<and> card (set (map fst (fst (flatten [item3 ''u'' ''a'' ''b'', item3 ''u'' ''c'' ''d''])))) = 2"
  by (simp add: item3_def flatten_def flatten_item_def get_own_def ascii_def qualifies_def)

text \<open>
  The identifiers are counted as the keys print them: the number 5 and the string
  \<^verbatim>\<open>"5"\<close> write the same two keys.
\<close>

lemma number_and_string_share_keys:
  "uuid_text [(ascii ''uuid'', JNum 5), (ascii ''title'', JStr (ascii ''a'')),
              (ascii ''body'', JStr (ascii ''b''))] = ascii ''5''
   \<and> fst (flatten
       [[(ascii ''uuid'', JNum 5), (ascii ''title'', JStr (ascii ''a'')),
         (ascii ''body'', JStr (ascii ''b''))],
        item3 ''5'' ''c'' ''d''])
     = [(ascii ''5_title'', JStr (ascii ''c'')), (ascii ''5_body'', JStr (ascii ''d''))]"
  by (simp add: item3_def flatten_def flatten_item_def uuid_text_def get_own_def show_int_def
        show_nat.simps ascii_def)

text \<open>
  C10. A record in which uuid, title or body is missing or falsy (the empty string, zero,
  false, null) changes neither object: the callback returns both as they were, and the
  two objects are those of the array without that record.
\<close>

theorem flatten_skips_falsy_fields:
  "\<not> is_truthy (get_own item (ascii ''uuid'')) \<or> \<not> is_truthy (get_own item (ascii ''title''))
     \<or> \<not> is_truthy (get_own item (ascii ''body'')) \<Longrightarrow>
   flatten_item acc item = acc \<and> flatten (before @ item # after) = flatten (before @ after)"
proof -
  assume "\<not> is_truthy (get_own item (ascii ''uuid''))
     \<or> \<not> is_truthy (get_own item (ascii ''title''))
     \<or> \<not> is_truthy (get_own item (ascii ''body''))"
  then have nq: "\<not> qualifies item" by (auto simp: qualifies_def)
  then have "flatten_item acc item = acc" by (rule flatten_item_skip)
  moreover have "flatten (before @ item # after) = flatten (before @ after)"
    using nq by (simp add: flatten_entries)
  ultimately show ?thesis by simp
qed

theorem flatten_skips_falsy_fields_witness:
  "\<not> is_truthy (get_own (item3 ''u'' [] ''b'') (ascii ''title''))
   \<and> flatten_item ([], []) (item3 ''u'' [] ''b'') = ([], [])
   \<and> flatten ([item3 ''v'' ''t'' ''x''] @ item3 ''u'' [] ''b'' # [])
       = flatten ([item3 ''v'' ''t'' ''x''] @ [])"
proof -
  have h: "\<not> is_truthy (get_own (item3 ''u'' [] ''b'') (ascii ''title''))"
    by (simp add: item3_def get_own_def ascii_def)
  then have h': "\<not> is_truthy (get_own (item3 ''u'' [] ''b'') (ascii ''uuid''))
     \<or> \<not> is_truthy (get_own (item3 ''u'' [] ''b'') (ascii ''title''))
     \<or> \<not> is_truthy (get_own (item3 ''u'' [] ''b'') (ascii ''body''))"
    by blast
  from h flatten_skips_falsy_fields [OF h', of "([], [])" "[item3 ''v'' ''t'' ''x'']" "[]"]
  show ?thesis by blast
qed

section \<open>Properties of the reconstruction loops\<close>

lemma uuidMatch_keys:
  "uuidMatch key = Some (u, f) \<Longrightarrow> key = u @ ascii ''_title'' \<or> key = u @ ascii ''_body''"
  by (auto simp: uuidMatch_Some_iff ascii_def)

lemma uuidMatch_title_key:
  "length u = 36 \<Longrightarrow> list_all is_uuid_char u \<Longrightarrow> uuidMatch (u @ ascii ''_title'') = Some (u, ascii ''title'')"
  by (simp add: uuidMatch_Some_iff ascii_def)

lemma uuidMatch_body_key:
  "length u = 36 \<Longrightarrow> list_all is_uuid_char u \<Longrightarrow> uuidMatch (u @ ascii ''_body'') = Some (u, ascii ''body'')"
  by (simp add: uuidMatch_Some_iff ascii_def)

lemma reconstruct_key_nomatch:
  "uuidMatch key = None \<Longrightarrow> reconstruct_key flat st key = st"
  by (cases st) (simp add: reconstruct_key_def)

lemma reconstruct_key_match:
  assumes m: "uuidMatch key = Some (u, f)" and own: "key \<in> set (map fst flat)"
  shows "reconstruct_key flat (td, P) key =
           (if u \<in> P then (td, P) else (td @ [rebuilt_record flat u], insert u P))"
proof -
  from own have "map_of flat key \<noteq> None" by (simp add: map_of_eq_None_iff)
  with uuidMatch_keys [OF m]
  have "get_own flat (u @ ascii ''_title'') \<noteq> None \<or> get_own flat (u @ ascii ''_body'') \<noteq> None"
    by (auto simp: get_own_def)
  then show ?thesis using m by (simp add: reconstruct_key_def Let_def)
qed

lemma matched_uuids_Cons:
  "matched_uuids (key # keys) =
     (case uuidMatch key of None \<Rightarrow> matched_uuids keys | Some (u, f) \<Rightarrow> u # matched_uuids keys)"
  by (simp add: matched_uuids_def split: option.splits)

lemma foldl_reconstruct_key:
  "set keys \<subseteq> set (map fst flat) \<Longrightarrow>
   foldl (reconstruct_key flat) (td, P) keys =
     (td @ map (rebuilt_record flat) (unseen P (matched_uuids keys)), P \<union> set (matched_uuids keys))"
proof (induction keys arbitrary: td P)
  case Nil
  show ?case by (simp add: matched_uuids_def)
next
  case (Cons key keys)
  from Cons.prems have own: "key \<in> set (map fst flat)" and rest: "set keys \<subseteq> set (map fst flat)"
    by simp_all
  show ?case
  proof (cases "uuidMatch key")
    case None
    then show ?thesis
      by (simp add: reconstruct_key_nomatch matched_uuids_Cons Cons.IH [OF rest])
  next
    case (Some m)
    obtain u f where m: "m = (u, f)" by (cases m)
    from Some m have match: "uuidMatch key = Some (u, f)" by simp
    show ?thesis
      by (simp add: reconstruct_key_match [OF match own] matched_uuids_Cons match
            Cons.IH [OF rest] insert_absorb)
  qed
qed

lemma first_occurrences_Nil_iff: "first_occurrences xs = [] \<longleftrightarrow> xs = []"
  by (simp add: first_occurrences_def remdups_eq_nil_iff)

lemma reconstruct_cases:
  "reconstruct clock flat =
     (if matched_uuids (map fst flat) = []
      then map (\<lambda>(index, key). fallback_record clock flat index key) (enumerate 0 (map fst flat))
      else map (rebuilt_record flat) (first_occurrences (matched_uuids (map fst flat))))"
proof -
  have "fst (foldl (reconstruct_key flat) ([], {}) (map fst flat))
          = map (rebuilt_record flat) (first_occurrences (matched_uuids (map fst flat)))"
    by (simp add: foldl_reconstruct_key unseen_empty)
  then show ?thesis
    by (simp add: reconstruct_def Let_def first_occurrences_Nil_iff)
qed

lemma matched_uuids_Nil_iff:
  "matched_uuids keys = [] \<longleftrightarrow> (\<forall>key \<in> set keys. uuidMatch key = None)"
proof (induction keys)
  case Nil
  show ?case by (simp add: matched_uuids_def)
next
  case (Cons key keys)
  then show ?case by (auto simp: matched_uuids_Cons split: option.splits)
qed

lemma set_first_occurrences: "set (first_occurrences xs) = set xs"
  by (simp add: first_occurrences_def)

lemma distinct_first_occurrences: "distinct (first_occurrences xs)"
  by (simp add: first_occurrences_def)

lemma first_occurrences_distinct: "distinct xs \<Longrightarrow> first_occurrences xs = xs"
  by (simp add: first_occurrences_def distinct_remdups_id)

lemma matched_uuids_valid:
  "u \<in> set (matched_uuids keys) \<Longrightarrow> length u = 36 \<and> list_all is_uuid_char u"
proof (induction keys)
  case Nil
  then show ?case by (simp add: matched_uuids_def)
next
  case (Cons key keys)
  show ?case
  proof (cases "uuidMatch key")
    case None
    with Cons show ?thesis by (simp add: matched_uuids_Cons)
  next
    case (Some m)
    obtain v f where m: "m = (v, f)" by (cases m)
    from Some m have "length v = 36 \<and> list_all is_uuid_char v"
      using uuidMatch_Some_iff [of key v f] by simp
    with Cons Some m show ?thesis by (auto simp: matched_uuids_Cons)
  qed
qed

lemma matched_uuids_filter:
  "matched_uuids (filter (\<lambda>key. uuidMatch key \<noteq> None) keys) = matched_uuids keys"
proof (induction keys)
  case Nil
  show ?case by simp
next
  case (Cons key keys)
  then show ?case by (cases "uuidMatch key") (auto simp: matched_uuids_Cons)
qed

lemma keys_filter_matching:
  "map fst (filter (\<lambda>(key, v). uuidMatch key \<noteq> None) flat)
     = filter (\<lambda>key. uuidMatch key \<noteq> None) (map fst flat)"
  by (induction flat) auto

lemma get_own_filter_matching:
  "uuidMatch key \<noteq> None \<Longrightarrow>
   get_own (filter (\<lambda>(key, v). uuidMatch key \<noteq> None) flat) key = get_own flat key"
  by (induction flat) (auto simp: get_own_def)

lemma rebuilt_record_filter_matching:
  assumes "length u = 36" and "list_all is_uuid_char u"
  shows "rebuilt_record (filter (\<lambda>(key, v). uuidMatch key \<noteq> None) flat) u = rebuilt_record flat u"
proof -
  have t: "uuidMatch (u @ ascii ''_title'') \<noteq> None"
    and b: "uuidMatch (u @ ascii ''_body'') \<noteq> None"
    using assms by (simp_all add: uuidMatch_title_key uuidMatch_body_key)
  show ?thesis
    by (simp only: rebuilt_record_def get_own_filter_matching [OF t]
          get_own_filter_matching [OF b])
qed

lemma generated_uuid_not_valid:
  assumes "length u = 36" and "list_all is_uuid_char u"
  shows "u \<noteq> generated_uuid clock index"
proof
  assume "u = generated_uuid clock index"
  then have "hd u = 0x67" by (simp add: generated_uuid_def ascii_def)
  moreover from assms have "is_uuid_char (hd u)" by (cases u) simp_all
  ultimately show False by (simp add: is_uuid_char_def)
qed

lemma uuid_of_rebuilt_record: "get_own (rebuilt_record flat u) (ascii ''uuid'') = Some (JStr u)"
  by (simp add: rebuilt_record_def get_own_def ascii_def)

lemma fallback_entries:
  "distinct (map fst flat) \<Longrightarrow> set es \<subseteq> set flat \<Longrightarrow>
   map (\<lambda>(index, key). fallback_record clock flat index key) (enumerate n (map fst es))
     = map (\<lambda>(index, (key, v)).
          [(ascii ''title'', JStr key), (ascii ''body'', v),
           (ascii ''uuid'', JStr (generated_uuid clock index))]) (enumerate n es)"
proof (induction es arbitrary: n)
  case Nil
  show ?case by simp
next
  case (Cons e es)
  obtain k v where e: "e = (k, v)" by (cases e)
  from Cons.prems have "map_of flat k = Some v" by (simp add: e)
  then have "fallback_record clock flat n k =
     [(ascii ''title'', JStr k), (ascii ''body'', v), (ascii ''uuid'', JStr (generated_uuid clock n))]"
    by (simp add: fallback_record_def get_own_def)
  moreover have "map (\<lambda>(index, key). fallback_record clock flat index key) (enumerate (Suc n) (map fst es))
     = map (\<lambda>(index, (key, v)).
          [(ascii ''title'', JStr key), (ascii ''body'', v),
           (ascii ''uuid'', JStr (generated_uuid clock index))]) (enumerate (Suc n) es)"
    using Cons.prems by (intro Cons.IH) simp_all
  ultimately show ?case by (simp add: e)
qed

text \<open>
  C5. When at least one key matches, the output is one record per distinct identifier of
  the matching keys, in the order in which the identifiers first occur among the keys;
  the record has title, body and uuid, where title and body are the values of the keys
  \<^verbatim>\<open>id_title\<close> and \<^verbatim>\<open>id_body\<close>, and the empty string when the key is absent
  (or its value falsy). Later keys of an identifier add nothing: the identifiers of the
  output are pairwise distinct.
\<close>

theorem reconstruct_matched_mode:
  "matched_uuids (map fst flat) \<noteq> [] \<Longrightarrow>
   reconstruct clock flat
     = map (\<lambda>uuid. [(ascii ''title'', or_empty (get_own flat (uuid @ ascii ''_title''))),
                     (ascii ''body'', or_empty (get_own flat (uuid @ ascii ''_body''))),
                     (ascii ''uuid'', JStr uuid)])
         (first_occurrences (matched_uuids (map fst flat)))
   \<and> distinct (first_occurrences (matched_uuids (map fst flat)))
   \<and> set (first_occurrences (matched_uuids (map fst flat))) = set (matched_uuids (map fst flat))
   \<and> (\<forall>key. key \<notin> set (map fst flat) \<longrightarrow> or_empty (get_own flat key) = JStr [])"
proof -
  assume "matched_uuids (map fst flat) \<noteq> []"
  then have "reconstruct clock flat
      = map (rebuilt_record flat) (first_occurrences (matched_uuids (map fst flat)))"
    by (simp add: reconstruct_cases)
  moreover have "rebuilt_record flat
      = (\<lambda>uuid. [(ascii ''title'', or_empty (get_own flat (uuid @ ascii ''_title''))),
                     (ascii ''body'', or_empty (get_own flat (uuid @ ascii ''_body''))),
                     (ascii ''uuid'', JStr uuid)])"
    by (rule ext) (simp add: rebuilt_record_def)
  moreover have "\<forall>key. key \<notin> set (map fst flat) \<longrightarrow> or_empty (get_own flat key) = JStr []"
    by (simp add: get_own_def map_of_eq_None_iff [THEN iffD2])
  ultimately show ?thesis
    by (simp add: distinct_first_occurrences set_first_occurrences)
qed


lemma mixed_matched:
  "matched_uuids (map fst mixed_flat) = [ascii uuid1, ascii uuid2, ascii uuid1]"
  by (simp add: mixed_flat_def matched_uuids_def uuidMatch_def uuid1_def uuid2_def ascii_def
        is_uuid_char_def)

lemma uuid1_neq_uuid2: "ascii uuid1 \<noteq> ascii uuid2"
  by (simp add: uuid1_def uuid2_def ascii_def)

theorem reconstruct_matched_mode_witness:
  "matched_uuids (map fst mixed_flat) \<noteq> []
   \<and> reconstruct (\<lambda>index. 0) mixed_flat
       = [[(ascii ''title'', JStr (ascii ''T1'')), (ascii ''body'', JStr (ascii ''B1'')),
           (ascii ''uuid'', JStr (ascii uuid1))],
          [(ascii ''title'', JStr (ascii ''T2'')), (ascii ''body'', JStr []),
           (ascii ''uuid'', JStr (ascii uuid2))]]"
proof -
  have h: "matched_uuids (map fst mixed_flat) \<noteq> []" by (simp add: mixed_matched)
  have fo: "first_occurrences (matched_uuids (map fst mixed_flat)) = [ascii uuid1, ascii uuid2]"
    using uuid1_neq_uuid2 by (simp add: mixed_matched first_occurrences_def)
  have t1: "get_own mixed_flat (ascii uuid1 @ ascii ''_title'') = Some (JStr (ascii ''T1''))"
    and b1: "get_own mixed_flat (ascii uuid1 @ ascii ''_body'') = Some (JStr (ascii ''B1''))"
    and t2: "get_own mixed_flat (ascii uuid2 @ ascii ''_title'') = Some (JStr (ascii ''T2''))"
    and b2: "get_own mixed_flat (ascii uuid2 @ ascii ''_body'') = None"
    by (simp_all add: mixed_flat_def get_own_def uuid1_def uuid2_def ascii_def)
  from reconstruct_matched_mode [OF h, of "\<lambda>index. 0"]
  have "reconstruct (\<lambda>index. 0) mixed_flat
     = map (\<lambda>uuid. [(ascii ''title'', or_empty (get_own mixed_flat (uuid @ ascii ''_title''))),
                     (ascii ''body'', or_empty (get_own mixed_flat (uuid @ ascii ''_body''))),
                     (ascii ''uuid'', JStr uuid)])
         (first_occurrences (matched_uuids (map fst mixed_flat)))"
    by (rule conjunct1)
  then show ?thesis using h by (simp add: fo t1 b1 t2 b2)
qed


text \<open>
  C2. When no key matches the pattern, the output is one record per key, in key order:
  the key as title, its value as body, and the identifier
  \<^verbatim>\<open>generated-<timestamp>-<index>\<close>. When some key matches, the output is the one
  of the mapping with every non-matching key removed, every record of it is the record
  rebuilt for the identifier of a matching key, and none carries a generated identifier.
\<close>

theorem reconstruct_all_or_nothing:
  "((\<forall>key \<in> set (map fst flat). uuidMatch key = None) \<and> distinct (map fst flat) \<longrightarrow>
      reconstruct clock flat
        = map (\<lambda>(index, (key, v)).
            [(ascii ''title'', JStr key), (ascii ''body'', v),
             (ascii ''uuid'',
              JStr (ascii ''generated-'' @ show_int (clock index) @ ascii ''-'' @ show_nat index))])
          (enumerate 0 flat))
   \<and> ((\<exists>key \<in> set (map fst flat). uuidMatch key \<noteq> None) \<longrightarrow>
        reconstruct clock flat
          = reconstruct clock (filter (\<lambda>(key, v). uuidMatch key \<noteq> None) flat)
        \<and> (\<forall>r \<in> set (reconstruct clock flat).
              \<exists>u \<in> set (matched_uuids (map fst flat)). r = rebuilt_record flat u)
        \<and> (\<forall>r \<in> set (reconstruct clock flat). \<forall>index.
              get_own r (ascii ''uuid'') \<noteq> Some (JStr (generated_uuid clock index))))"
proof (intro conjI impI)
  assume a: "(\<forall>key \<in> set (map fst flat). uuidMatch key = None) \<and> distinct (map fst flat)"
  then have none: "matched_uuids (map fst flat) = []" by (simp add: matched_uuids_Nil_iff)
  have "map (\<lambda>(index, key). fallback_record clock flat index key) (enumerate 0 (map fst flat))
     = map (\<lambda>(index, (key, v)).
          [(ascii ''title'', JStr key), (ascii ''body'', v),
           (ascii ''uuid'', JStr (generated_uuid clock index))]) (enumerate 0 flat)"
    using a by (intro fallback_entries) simp_all
  then show "reconstruct clock flat
        = map (\<lambda>(index, (key, v)).
            [(ascii ''title'', JStr key), (ascii ''body'', v),
             (ascii ''uuid'',
              JStr (ascii ''generated-'' @ show_int (clock index) @ ascii ''-'' @ show_nat index))])
          (enumerate 0 flat)"
    by (simp add: reconstruct_cases none generated_uuid_def)
next
  assume b: "\<exists>key \<in> set (map fst flat). uuidMatch key \<noteq> None"
  let ?flat' = "filter (\<lambda>(key, v). uuidMatch key \<noteq> None) flat"
  from b have some: "matched_uuids (map fst flat) \<noteq> []" by (simp add: matched_uuids_Nil_iff)
  have same: "matched_uuids (map fst ?flat') = matched_uuids (map fst flat)"
    by (simp only: keys_filter_matching matched_uuids_filter)
  have r: "reconstruct clock flat
      = map (rebuilt_record flat) (first_occurrences (matched_uuids (map fst flat)))"
    using some by (simp add: reconstruct_cases)
  have r': "reconstruct clock ?flat'
      = map (rebuilt_record ?flat') (first_occurrences (matched_uuids (map fst flat)))"
    using some by (simp only: reconstruct_cases same if_False)
  have "map (rebuilt_record ?flat') (first_occurrences (matched_uuids (map fst flat)))
      = map (rebuilt_record flat) (first_occurrences (matched_uuids (map fst flat)))"
  proof (rule map_cong [OF refl])
    fix u assume "u \<in> set (first_occurrences (matched_uuids (map fst flat)))"
    then have "u \<in> set (matched_uuids (map fst flat))" by (simp add: set_first_occurrences)
    then have "length u = 36 \<and> list_all is_uuid_char u" by (rule matched_uuids_valid)
    then show "rebuilt_record ?flat' u = rebuilt_record flat u"
      by (intro rebuilt_record_filter_matching) (rule conjunct1, assumption, rule conjunct2)
  qed
  with r r' show "reconstruct clock flat = reconstruct clock ?flat'" by simp
  show "\<forall>r \<in> set (reconstruct clock flat).
              \<exists>u \<in> set (matched_uuids (map fst flat)). r = rebuilt_record flat u"
    by (auto simp: r set_first_occurrences)
  show "\<forall>r \<in> set (reconstruct clock flat). \<forall>index.
              get_own r (ascii ''uuid'') \<noteq> Some (JStr (generated_uuid clock index))"
  proof (intro ballI allI)
    fix rcd index assume "rcd \<in> set (reconstruct clock flat)"
    then obtain u where u: "u \<in> set (matched_uuids (map fst flat))" and rcd: "rcd = rebuilt_record flat u"
      by (auto simp: r set_first_occurrences)
    from u have "length u = 36 \<and> list_all is_uuid_char u" by (rule matched_uuids_valid)
    then have "u \<noteq> generated_uuid clock index" by (simp add: generated_uuid_not_valid)
    then show "get_own rcd (ascii ''uuid'') \<noteq> Some (JStr (generated_uuid clock index))"
      by (simp add: rcd uuid_of_rebuilt_record)
  qed
qed

theorem reconstruct_all_or_nothing_witness:
  "matched_uuids (map fst plain_flat) = []
   \<and> reconstruct (\<lambda>index. 1700000000000 + int index) plain_flat
       = [[(ascii ''title'', JStr (ascii ''greeting'')), (ascii ''body'', JStr (ascii ''hello'')),
           (ascii ''uuid'', JStr (ascii ''generated-1700000000000-0''))],
          [(ascii ''title'', JStr (ascii ''farewell'')), (ascii ''body'', JNum 7),
           (ascii ''uuid'', JStr (ascii ''generated-1700000000001-1''))]]
   \<and> matched_uuids (map fst mixed_flat) \<noteq> []
   \<and> reconstruct (\<lambda>index. 0) mixed_flat
       = reconstruct (\<lambda>index. 0)
           [(ascii (uuid1 @ ''_body''), JStr (ascii ''B1'')),
            (ascii (uuid2 @ ''_title''), JStr (ascii ''T2'')),
            (ascii (uuid1 @ ''_title''), JStr (ascii ''T1''))]"
proof -
  have nomatch: "\<forall>key \<in> set (map fst plain_flat). uuidMatch key = None"
    by (simp add: plain_flat_def uuidMatch_def ascii_def)
  have dist: "distinct (map fst plain_flat)"
    by (simp add: plain_flat_def ascii_def)
  have none: "matched_uuids (map fst plain_flat) = []"
    using nomatch by (simp add: matched_uuids_Nil_iff)
  have some: "\<exists>key \<in> set (map fst mixed_flat). uuidMatch key \<noteq> None"
    by (simp add: mixed_flat_def uuidMatch_def uuid1_def uuid2_def ascii_def is_uuid_char_def)
  have some': "matched_uuids (map fst mixed_flat) \<noteq> []" by (simp add: mixed_matched)
  have d0: "show_int 1700000000000 = ascii ''1700000000000''"
    and d1: "show_int 1700000000001 = ascii ''1700000000001''"
    and n0: "show_nat 0 = ascii ''0''" and n1: "show_nat (Suc 0) = ascii ''1''"
    by (simp_all add: show_int_def show_nat.simps ascii_def)
  from reconstruct_all_or_nothing [of plain_flat "\<lambda>index. 1700000000000 + int index"] nomatch dist
  have "reconstruct (\<lambda>index. 1700000000000 + int index) plain_flat
        = map (\<lambda>(index, (key, v)).
            [(ascii ''title'', JStr key), (ascii ''body'', v),
             (ascii ''uuid'',
              JStr (ascii ''generated-'' @ show_int (1700000000000 + int index) @ ascii ''-'' @ show_nat index))])
          (enumerate 0 plain_flat)"
    by blast
  then have a: "reconstruct (\<lambda>index. 1700000000000 + int index) plain_flat
       = [[(ascii ''title'', JStr (ascii ''greeting'')), (ascii ''body'', JStr (ascii ''hello'')),
           (ascii ''uuid'', JStr (ascii ''generated-1700000000000-0''))],
          [(ascii ''title'', JStr (ascii ''farewell'')), (ascii ''body'', JNum 7),
           (ascii ''uuid'', JStr (ascii ''generated-1700000000001-1''))]]"
    by (simp add: plain_flat_def d0 d1 n0 n1) (simp add: ascii_def)
  from reconstruct_all_or_nothing [of mixed_flat "\<lambda>index. 0"] some
  have "reconstruct (\<lambda>index. 0) mixed_flat
          = reconstruct (\<lambda>index. 0) (filter (\<lambda>(key, v). uuidMatch key \<noteq> None) mixed_flat)"
    by blast
  moreover have "filter (\<lambda>(key, v). uuidMatch key \<noteq> None) mixed_flat
      = [(ascii (uuid1 @ ''_body''), JStr (ascii ''B1'')),
            (ascii (uuid2 @ ''_title''), JStr (ascii ''T2'')),
            (ascii (uuid1 @ ''_title''), JStr (ascii ''T1''))]"
    by (simp add: mixed_flat_def uuidMatch_def uuid1_def uuid2_def ascii_def is_uuid_char_def)
  ultimately have b: "reconstruct (\<lambda>index. 0) mixed_flat
       = reconstruct (\<lambda>index. 0)
           [(ascii (uuid1 @ ''_body''), JStr (ascii ''B1'')),
            (ascii (uuid2 @ ''_title''), JStr (ascii ''T2'')),
            (ascii (uuid1 @ ''_title''), JStr (ascii ''T1''))]"
    by simp
  from none a some' b show ?thesis by blast
qed

section \<open>Properties of flattening followed by reconstruction\<close>

lemma string_of_Some_iff: "string_of x = Some s \<longleftrightarrow> x = Some (JStr s)"
  by (cases x rule: string_of.cases) simp_all

lemma round_trip_inputD:
  "round_trip_input item \<Longrightarrow>
   \<exists>u t b. get_own item (ascii ''uuid'') = Some (JStr u)
     \<and> get_own item (ascii ''title'') = Some (JStr t)
     \<and> get_own item (ascii ''body'') = Some (JStr b)
     \<and> length u = 36 \<and> list_all is_uuid_char u \<and> t \<noteq> [] \<and> b \<noteq> []"
proof -
  assume r: "round_trip_input item"
  from r obtain u where u: "string_of (get_own item (ascii ''uuid'')) = Some u"
    and u': "length u = 36 \<and> list_all is_uuid_char u"
    by (cases "string_of (get_own item (ascii ''uuid''))") (simp_all add: round_trip_input_def)
  from r obtain t where t: "string_of (get_own item (ascii ''title'')) = Some t" and t': "t \<noteq> []"
    by (cases "string_of (get_own item (ascii ''title''))") (simp_all add: round_trip_input_def)
  from r obtain b where b: "string_of (get_own item (ascii ''body'')) = Some b" and b': "b \<noteq> []"
    by (cases "string_of (get_own item (ascii ''body''))") (simp_all add: round_trip_input_def)
  from u t b u' t' b' show ?thesis by (simp add: string_of_Some_iff)
qed

lemma round_trip_input_qualifies: "round_trip_input item \<Longrightarrow> qualifies item"
  by (drule round_trip_inputD) (auto simp: qualifies_def)

lemma round_trip_input_uuid:
  "round_trip_input item \<Longrightarrow> length (uuid_text item) = 36 \<and> list_all is_uuid_char (uuid_text item)"
  by (drule round_trip_inputD) (auto simp: uuid_text_def)

lemma round_trip_input_entries:
  "round_trip_input item \<Longrightarrow>
   \<exists>t b. t \<noteq> [] \<and> b \<noteq> []
     \<and> source_entries item
         = [(uuid_text item @ ascii ''_title'', JStr t), (uuid_text item @ ascii ''_body'', JStr b)]
     \<and> triple item
         = [(ascii ''title'', JStr t), (ascii ''body'', JStr b), (ascii ''uuid'', JStr (uuid_text item))]"
  by (drule round_trip_inputD) (auto simp: source_entries_def triple_def)

lemma filter_qualifies_all:
  "\<forall>item \<in> set items. round_trip_input item \<Longrightarrow> filter qualifies items = items"
  by (induction items) (simp_all add: round_trip_input_qualifies)

lemma unseen_map_unseen:
  "f ` S \<subseteq> T \<Longrightarrow> unseen T (map f (unseen S xs)) = unseen T (map f xs)"
proof (induction xs arbitrary: S T)
  case Nil
  show ?case by simp
next
  case (Cons x xs)
  show ?case
  proof (cases "x \<in> S")
    case True
    with Cons.prems have "f x \<in> T" by auto
    with True Cons.IH [OF Cons.prems] show ?thesis by simp
  next
    case False
    show ?thesis
    proof (cases "f x \<in> T")
      case True
      from Cons.prems True have "f ` insert x S \<subseteq> T" by auto
      from Cons.IH [OF this] True False show ?thesis by simp
    next
      case nT: False
      from Cons.prems have "f ` insert x S \<subseteq> insert (f x) T" by auto
      from Cons.IH [OF this] nT False show ?thesis by simp
    qed
  qed
qed

lemma unseen_doubled: "unseen S (concat (map (\<lambda>u. [u, u]) us)) = unseen S us"
  by (induction us arbitrary: S) simp_all

lemma matched_uuids_all:
  "\<forall>key \<in> set keys. uuidMatch key \<noteq> None \<Longrightarrow> matched_uuids keys = map (take 36) keys"
proof (induction keys)
  case Nil
  show ?case by (simp add: matched_uuids_def)
next
  case (Cons key keys)
  from Cons.prems obtain u f where m: "uuidMatch key = Some (u, f)" by auto
  then have u: "u = take 36 key" by (auto simp: uuidMatch_def Let_def split: if_splits)
  from Cons.prems have "\<forall>key \<in> set keys. uuidMatch key \<noteq> None" by simp
  then have IH: "matched_uuids keys = map (take 36) keys" by (rule Cons.IH)
  show ?case by (simp add: matched_uuids_Cons m IH u [symmetric])
qed

lemma flat_keys_match:
  assumes "length u = 36" and "list_all is_uuid_char u" and "key \<in> set (flat_keys u)"
  shows "uuidMatch key \<noteq> None \<and> take 36 key = u"
  using assms by (auto simp: flat_keys_def uuidMatch_title_key uuidMatch_body_key)

lemma take_flat_keys:
  "\<forall>u \<in> set us. length u = 36 \<Longrightarrow>
   map (take 36) (concat (map flat_keys us)) = concat (map (\<lambda>u. [u, u]) us)"
  by (induction us) (simp_all add: flat_keys_def)

lemma filter_distinct_map:
  "distinct (map f xs) \<Longrightarrow> x \<in> set xs \<Longrightarrow> filter (\<lambda>y. f y = f x) xs = [x]"
proof (induction xs)
  case Nil
  then show ?case by simp
next
  case (Cons y ys)
  show ?case
  proof (cases "y = x")
    case True
    from Cons.prems(1) have "f x \<notin> f ` set ys" by (simp add: True)
    then have "\<forall>y \<in> set ys. f y \<noteq> f x" by (metis imageI)
    then have "filter (\<lambda>y. f y = f x) ys = []" by (simp add: filter_empty_conv)
    then show ?thesis by (simp add: True)
  next
    case False
    with Cons.prems have x: "x \<in> set ys" and d: "distinct (map f ys)" by simp_all
    from Cons.prems(1) x have "f y \<noteq> f x" by auto
    with Cons.IH [OF d x] show ?thesis by simp
  qed
qed

lemma round_trip_source_keys:
  assumes all: "\<forall>item \<in> set items. round_trip_input item"
  shows "map fst (fst (flatten items)) = unseen {} (concat (map flat_keys (map uuid_text items)))"
proof -
  have "map fst (concat (map source_entries (filter qualifies items)))
          = concat (map flat_keys (map uuid_text (filter qualifies items)))"
    by (rule keys_concat_source_entries)
  then have "map fst (concat (map source_entries items))
          = concat (map flat_keys (map uuid_text items))"
    by (simp only: filter_qualifies_all [OF all])
  then show ?thesis
    by (simp add: flatten_entries keys_assign_all filter_qualifies_all [OF all])
qed

lemma round_trip_source_lookup:
  assumes all: "\<forall>item \<in> set items. round_trip_input item"
  shows "get_own (fst (flatten items)) key = map_of (rev (concat (map source_entries items))) key"
  by (simp add: get_own_def flatten_entries map_of_assign_all filter_qualifies_all [OF all])

lemma round_trip_identifiers:
  assumes all: "\<forall>item \<in> set items. round_trip_input item"
  shows "first_occurrences (matched_uuids (map fst (fst (flatten items))))
           = first_occurrences (map uuid_text items)"
proof -
  let ?us = "map uuid_text items"
  let ?K = "concat (map flat_keys ?us)"
  have valid: "\<forall>u \<in> set ?us. length u = 36 \<and> list_all is_uuid_char u"
    using all by (auto simp: round_trip_input_uuid)
  have "\<forall>key \<in> set ?K. uuidMatch key \<noteq> None"
  proof
    fix key assume "key \<in> set ?K"
    then obtain u where u: "u \<in> set ?us" and k: "key \<in> set (flat_keys u)" by auto
    from valid u have "length u = 36" "list_all is_uuid_char u" by blast+
    from flat_keys_match [OF this k] show "uuidMatch key \<noteq> None" by simp
  qed
  then have "\<forall>key \<in> set (unseen {} ?K). uuidMatch key \<noteq> None"
    by (simp add: set_unseen)
  then have m: "matched_uuids (unseen {} ?K) = map (take 36) (unseen {} ?K)"
    by (rule matched_uuids_all)
  have "first_occurrences (matched_uuids (map fst (fst (flatten items))))
          = unseen {} (matched_uuids (unseen {} ?K))"
    by (simp only: round_trip_source_keys [OF all] unseen_empty)
  also have "\<dots> = unseen {} (map (take 36) (unseen {} ?K))"
    by (simp only: m)
  also have "\<dots> = unseen {} (map (take 36) ?K)"
    by (rule unseen_map_unseen) simp
  also have "map (take 36) ?K = concat (map (\<lambda>u. [u, u]) ?us)"
    using valid by (intro take_flat_keys) simp
  also have "unseen {} (concat (map (\<lambda>u. [u, u]) ?us)) = unseen {} ?us"
    by (rule unseen_doubled)
  finally show ?thesis by (simp only: unseen_empty)
qed

lemma last_filter_props:
  assumes "u \<in> set (map f xs)"
  shows "last (filter (\<lambda>x. f x = u) xs) \<in> set xs \<and> f (last (filter (\<lambda>x. f x = u) xs)) = u"
proof -
  from assms have ne: "filter (\<lambda>x. f x = u) xs \<noteq> []" by (auto simp: filter_empty_conv)
  then have "last (filter (\<lambda>x. f x = u) xs) \<in> set (filter (\<lambda>x. f x = u) xs)"
    by (rule last_in_set)
  then show ?thesis by simp
qed

lemma round_trip_lookup_last:
  assumes all: "\<forall>item \<in> set items. round_trip_input item"
    and u: "u \<in> set (map uuid_text items)"
  shows "map_of (rev (concat (map source_entries items))) (u @ ascii ''_title'')
           = get_own (last (filter (\<lambda>r. uuid_text r = u) items)) (ascii ''title'')
       \<and> map_of (rev (concat (map source_entries items))) (u @ ascii ''_body'')
           = get_own (last (filter (\<lambda>r. uuid_text r = u) items)) (ascii ''body'')"
  using all u
proof (induction items rule: rev_induct)
  case Nil
  then show ?case by simp
next
  case (snoc r rs)
  from snoc.prems(1) have r: "round_trip_input r" and rs: "\<forall>item \<in> set rs. round_trip_input item"
    by simp_all
  from round_trip_input_entries [OF r] obtain t b where
    e: "source_entries r
         = [(uuid_text r @ ascii ''_title'', JStr t), (uuid_text r @ ascii ''_body'', JStr b)]"
    and tr: "triple r
         = [(ascii ''title'', JStr t), (ascii ''body'', JStr b), (ascii ''uuid'', JStr (uuid_text r))]"
    by blast
  from round_trip_inputD [OF r] e have gt: "get_own r (ascii ''title'') = Some (JStr t)"
    and gb: "get_own r (ascii ''body'') = Some (JStr b)"
    by (auto simp: source_entries_def)
  show ?case
  proof (cases "uuid_text r = u")
    case True
    then show ?thesis
      using title_key_neq_body_key [of u u]
      by (simp add: e gt gb map_add_def)
  next
    case False
    with snoc.prems(2) have "u \<in> set (map uuid_text rs)" by auto
    from snoc.IH [OF rs this] False title_key_neq_body_key [of u "uuid_text r"]
      title_key_neq_body_key [of "uuid_text r" u]
    show ?thesis by (simp add: e map_add_def)
  qed
qed

lemma round_trip_rebuilt:
  assumes all: "\<forall>item \<in> set items. round_trip_input item"
    and u: "u \<in> set (map uuid_text items)"
  shows "rebuilt_record (fst (flatten items)) u = triple (last (filter (\<lambda>r. uuid_text r = u) items))"
proof -
  let ?r = "last (filter (\<lambda>r. uuid_text r = u) items)"
  from last_filter_props [OF u] have mem: "?r \<in> set items" and id: "uuid_text ?r = u" by simp_all
  from all mem have "round_trip_input ?r" by simp
  from round_trip_inputD [OF this] obtain t b where
    gt: "get_own ?r (ascii ''title'') = Some (JStr t)" and gb: "get_own ?r (ascii ''body'') = Some (JStr b)"
    and ne: "t \<noteq> []" "b \<noteq> []"
    by blast
  from round_trip_lookup_last [OF all u] gt gb
  have "get_own (fst (flatten items)) (u @ ascii ''_title'') = Some (JStr t)"
    and "get_own (fst (flatten items)) (u @ ascii ''_body'') = Some (JStr b)"
    by (simp_all add: round_trip_source_lookup [OF all])
  then show ?thesis using ne by (simp add: rebuilt_record_def triple_def gt gb id)
qed


lemma item3_valid1: "round_trip_input (item3 uuid1 t b) \<longleftrightarrow> t \<noteq> [] \<and> b \<noteq> []"
  by (simp add: round_trip_input_def item3_def get_own_def uuid1_def ascii_def is_uuid_char_def)

lemma item3_valid2: "round_trip_input (item3 uuid2 t b) \<longleftrightarrow> t \<noteq> [] \<and> b \<noteq> []"
  by (simp add: round_trip_input_def item3_def get_own_def uuid2_def ascii_def is_uuid_char_def)

lemma uuid_text_item3: "uuid_text (item3 u t b) = ascii u"
  by (simp add: uuid_text_def item3_def get_own_def ascii_def)

lemma triple_item3:
  "triple (item3 u t b) =
     [(ascii ''title'', JStr (ascii t)), (ascii ''body'', JStr (ascii b)), (ascii ''uuid'', JStr (ascii u))]"
  by (simp add: triple_def item3_def get_own_def uuid_text_def ascii_def)


text \<open>
  C1, as the code has it. For an array of records that each have a uuid of the accepted
  shape and non-empty title and body strings, flattening and then reconstructing gives
  one record per distinct identifier, in the order the identifiers first occur in the
  array, with the title and body of the last record that has this identifier. When the
  identifiers are pairwise distinct, this is the (title, body, uuid) of every input
  record, in input order.
\<close>

theorem round_trip:
  "\<forall>item \<in> set items. round_trip_input item \<Longrightarrow>
   reconstruct clock (fst (flatten items))
     = map (\<lambda>u. triple (last (filter (\<lambda>item. uuid_text item = u) items)))
         (first_occurrences (map uuid_text items))
   \<and> (distinct (map uuid_text items) \<longrightarrow>
        reconstruct clock (fst (flatten items)) = map triple items)"
proof -
  assume all: "\<forall>item \<in> set items. round_trip_input item"
  let ?src = "fst (flatten items)"
  let ?us = "map uuid_text items"
  have ids: "first_occurrences (matched_uuids (map fst ?src)) = first_occurrences ?us"
    using all by (rule round_trip_identifiers)
  have general: "reconstruct clock ?src
     = map (\<lambda>u. triple (last (filter (\<lambda>item. uuid_text item = u) items))) (first_occurrences ?us)"
  proof (cases "items = []")
    case True
    then show ?thesis by (simp add: flatten_def reconstruct_def first_occurrences_def)
  next
    case False
    then have "first_occurrences ?us \<noteq> []" by (simp add: first_occurrences_Nil_iff)
    with ids have "first_occurrences (matched_uuids (map fst ?src)) \<noteq> []" by simp
    then have "matched_uuids (map fst ?src) \<noteq> []"
      using first_occurrences_Nil_iff [of "matched_uuids (map fst ?src)"] by blast
    then have "reconstruct clock ?src = map (rebuilt_record ?src) (first_occurrences ?us)"
      by (simp add: reconstruct_cases ids)
    also have "\<dots> = map (\<lambda>u. triple (last (filter (\<lambda>item. uuid_text item = u) items)))
                       (first_occurrences ?us)"
    proof (rule map_cong [OF refl])
      fix u assume "u \<in> set (first_occurrences ?us)"
      then have "u \<in> set ?us" by (simp only: set_first_occurrences)
      with all show "rebuilt_record ?src u = triple (last (filter (\<lambda>item. uuid_text item = u) items))"
        by (rule round_trip_rebuilt)
    qed
    finally show ?thesis .
  qed
  have "reconstruct clock ?src = map triple items" if d: "distinct ?us"
  proof -
    have "map (\<lambda>u. triple (last (filter (\<lambda>item. uuid_text item = u) items))) ?us = map triple items"
    proof -
      have "triple (last (filter (\<lambda>item. uuid_text item = uuid_text r) items)) = triple r"
        if "r \<in> set items" for r
        using filter_distinct_map [OF d that] by simp
      then show ?thesis by (simp add: map_idI cong: map_cong)
    qed
    then show ?thesis using general by (simp only: first_occurrences_distinct [OF d])
  qed
  with general show ?thesis by blast
qed

theorem round_trip_witness:
  "round_trip_input (item3 uuid2 ''T2'' ''B2'') \<and> round_trip_input (item3 uuid1 ''T1'' ''B1'')
   \<and> distinct (map uuid_text [item3 uuid2 ''T2'' ''B2'', item3 uuid1 ''T1'' ''B1''])
   \<and> reconstruct (\<lambda>index. 0) (fst (flatten [item3 uuid2 ''T2'' ''B2'', item3 uuid1 ''T1'' ''B1'']))
       = [[(ascii ''title'', JStr (ascii ''T2'')), (ascii ''body'', JStr (ascii ''B2'')),
           (ascii ''uuid'', JStr (ascii uuid2))],
          [(ascii ''title'', JStr (ascii ''T1'')), (ascii ''body'', JStr (ascii ''B1'')),
           (ascii ''uuid'', JStr (ascii uuid1))]]"
proof -
  let ?items = "[item3 uuid2 ''T2'' ''B2'', item3 uuid1 ''T1'' ''B1'']"
  have v2: "round_trip_input (item3 uuid2 ''T2'' ''B2'')" by (simp add: item3_valid2)
  have v1: "round_trip_input (item3 uuid1 ''T1'' ''B1'')" by (simp add: item3_valid1)
  have all: "\<forall>item \<in> set ?items. round_trip_input item" using v1 v2 by simp
  have d: "distinct (map uuid_text ?items)"
    using uuid1_neq_uuid2 by (simp add: uuid_text_item3) 
  from round_trip [OF all, of "\<lambda>index. 0"] d
  have "reconstruct (\<lambda>index. 0) (fst (flatten ?items)) = map triple ?items" by blast
  then have "reconstruct (\<lambda>index. 0) (fst (flatten ?items))
       = [[(ascii ''title'', JStr (ascii ''T2'')), (ascii ''body'', JStr (ascii ''B2'')),
           (ascii ''uuid'', JStr (ascii uuid2))],
          [(ascii ''title'', JStr (ascii ''T1'')), (ascii ''body'', JStr (ascii ''B1'')),
           (ascii ''uuid'', JStr (ascii uuid1))]]"
    by (simp add: triple_item3)
  with v1 v2 d show ?thesis by blast
qed

text \<open>
  Against C1 as stated: of two records with the same identifier only the values of the
  second come back.
\<close>

theorem round_trip_duplicate_counterexample:
  "round_trip_input (item3 uuid1 ''a'' ''b'') \<and> round_trip_input (item3 uuid1 ''c'' ''d'')
   \<and> reconstruct (\<lambda>index. 0) (fst (flatten [item3 uuid1 ''a'' ''b'', item3 uuid1 ''c'' ''d'']))
       = [[(ascii ''title'', JStr (ascii ''c'')), (ascii ''body'', JStr (ascii ''d'')),
           (ascii ''uuid'', JStr (ascii uuid1))]]
   \<and> triple (item3 uuid1 ''a'' ''b'')
       \<notin> set (reconstruct (\<lambda>index. 0)
                 (fst (flatten [item3 uuid1 ''a'' ''b'', item3 uuid1 ''c'' ''d''])))"
proof -
  have v: "round_trip_input (item3 uuid1 ''a'' ''b'')" "round_trip_input (item3 uuid1 ''c'' ''d'')"
    by (simp_all add: item3_valid1)
  have src: "fst (flatten [item3 uuid1 ''a'' ''b'', item3 uuid1 ''c'' ''d''])
      = [(ascii uuid1 @ ascii ''_title'', JStr (ascii ''c'')),
         (ascii uuid1 @ ascii ''_body'', JStr (ascii ''d''))]"
    using title_key_neq_body_key [of "ascii uuid1" "ascii uuid1"]
    by (simp add: flatten_def flatten_item_def item3_def get_own_def)
       (simp add: ascii_def uuid1_def)
  have valid: "length (ascii uuid1) = 36" "list_all is_uuid_char (ascii uuid1)"
    by (simp_all add: uuid1_def ascii_def is_uuid_char_def)
  have m: "matched_uuids [ascii uuid1 @ ascii ''_title'', ascii uuid1 @ ascii ''_body'']
      = [ascii uuid1, ascii uuid1]"
    by (simp add: matched_uuids_Cons uuidMatch_title_key [OF valid] uuidMatch_body_key [OF valid])
       (simp add: matched_uuids_def)
  have r: "reconstruct (\<lambda>index. 0) (fst (flatten [item3 uuid1 ''a'' ''b'', item3 uuid1 ''c'' ''d'']))
       = [[(ascii ''title'', JStr (ascii ''c'')), (ascii ''body'', JStr (ascii ''d'')),
           (ascii ''uuid'', JStr (ascii uuid1))]]"
    using title_key_neq_body_key [of "ascii uuid1" "ascii uuid1"]
    by (simp add: src reconstruct_cases m first_occurrences_def rebuilt_record_def get_own_def)
  have "triple (item3 uuid1 ''a'' ''b'')
       \<noteq> [(ascii ''title'', JStr (ascii ''c'')), (ascii ''body'', JStr (ascii ''d'')),
           (ascii ''uuid'', JStr (ascii uuid1))]"
    by (simp add: triple_item3) (simp add: ascii_def)
  with v r show ?thesis by simp
qed

section \<open>Properties of generateXliffContent\<close>

lemmas consolidate_eval =
  generateXliffContent_def firstSourceItem_def translatableFields_def targetMap_def
  targetMap_set_def process_item_def emit_field_def initial_state_def get_own_def get_prop_def
  item3_def korean_target_def trim_def is_js_space_def escape_string_def replace_all_def
  warning_line_def Let_def

lemma all_space_dropWhile:
  "(\<forall>c \<in> set (dropWhile is_js_space s). is_js_space c) \<longleftrightarrow> (\<forall>c \<in> set s. is_js_space c)"
proof
  assume a: "\<forall>c \<in> set (dropWhile is_js_space s). is_js_space c"
  have "dropWhile is_js_space s = []"
  proof (rule ccontr)
    assume ne: "dropWhile is_js_space s \<noteq> []"
    then have "\<not> is_js_space (hd (dropWhile is_js_space s))" by (rule hd_dropWhile)
    moreover from ne have "hd (dropWhile is_js_space s) \<in> set (dropWhile is_js_space s)"
      by (rule hd_in_set)
    ultimately show False using a by blast
  qed
  then show "\<forall>c \<in> set s. is_js_space c" by (simp only: dropWhile_eq_Nil_conv)
next
  assume "\<forall>c \<in> set s. is_js_space c"
  then show "\<forall>c \<in> set (dropWhile is_js_space s). is_js_space c"
    by (blast dest: set_dropWhileD)
qed

lemma trim_Nil_iff: "trim s = [] \<longleftrightarrow> list_all is_js_space s"
  by (simp add: trim_def all_space_dropWhile list_all_iff)

lemma targetMap_set_None:
  "truthy u \<Longrightarrow>
   targetMap_set m item u = None \<longleftrightarrow> m u = None \<and> get_own item (ascii ''uuid'') \<noteq> Some u"
  by (cases "get_own item (ascii ''uuid'')") (auto simp: targetMap_set_def)

lemma foldl_targetMap_set_None:
  "truthy u \<Longrightarrow>
   foldl targetMap_set m items u = None \<longleftrightarrow>
     m u = None \<and> (\<forall>item \<in> set items. get_own item (ascii ''uuid'') \<noteq> Some u)"
proof (induction items arbitrary: m)
  case Nil
  show ?case by simp
next
  case (Cons item items)
  have "foldl targetMap_set m (item # items) u = None \<longleftrightarrow>
          targetMap_set m item u = None
          \<and> (\<forall>item \<in> set items. get_own item (ascii ''uuid'') \<noteq> Some u)"
    using Cons.IH [OF Cons.prems, of "targetMap_set m item"] by simp
  then show ?case by (auto simp: targetMap_set_None [OF Cons.prems])
qed

lemma targetMap_None_iff:
  "truthy u \<Longrightarrow>
   targetMap targetData u = None \<longleftrightarrow> (\<forall>item \<in> set targetData. get_own item (ascii ''uuid'') \<noteq> Some u)"
  by (simp add: targetMap_def foldl_targetMap_set_None)

text \<open>
  C7. A source record whose uuid is truthy and is the uuid of no target record adds no unit:
  the step returns normally (it does not throw), with the text and the count of the units
  unchanged and one more warning line, and the loop goes on with the records that follow.
\<close>

theorem missing_target_is_skipped:
  assumes "get_own sourceItem (ascii ''uuid'') = Some uuid" and "truthy uuid"
    and "\<forall>item \<in> set targetData. get_own item (ascii ''uuid'') \<noteq> Some uuid"
  shows "process_item (targetMap targetData) fieldNames st sourceItem
           = Inr (st\<lparr>warnings := warnings st @ [warning_line uuid]\<rparr>)
       \<and> transUnits (st\<lparr>warnings := warnings st @ [warning_line uuid]\<rparr>) = transUnits st
       \<and> unitCount (st\<lparr>warnings := warnings st @ [warning_line uuid]\<rparr>) = unitCount st
       \<and> for_each (process_item (targetMap targetData) fieldNames) st (sourceItem # rest)
           = for_each (process_item (targetMap targetData) fieldNames)
               (st\<lparr>warnings := warnings st @ [warning_line uuid]\<rparr>) rest"
proof -
  from assms(2,3) have "targetMap targetData uuid = None" by (simp add: targetMap_None_iff)
  with assms(1,2) have "process_item (targetMap targetData) fieldNames st sourceItem
           = Inr (st\<lparr>warnings := warnings st @ [warning_line uuid]\<rparr>)"
    by (simp add: process_item_def)
  then show ?thesis by simp
qed

theorem missing_target_is_skipped_witness:
  "get_own (item3 ''Y'' ''Q'' ''R'') (ascii ''uuid'') = Some (JStr (ascii ''Y''))
   \<and> truthy (JStr (ascii ''Y''))
   \<and> process_item (targetMap [korean_target]) [ascii ''title'', ascii ''body''] initial_state
        (item3 ''Y'' ''Q'' ''R'')
       = Inr (initial_state\<lparr>warnings := warnings initial_state @ [warning_line (JStr (ascii ''Y''))]\<rparr>)
   \<and> generateXliffContent [item3 ''Y'' ''Q'' ''R'', item3 ''X'' ''A'' ''B''] [korean_target]
        (ascii ''en'') (ascii ''ko'')
       = Inr \<lparr>content = xliff_document (ascii ''en'') (ascii ''ko'')
                (trans_unit (ascii ''X_title'') (ascii ''A'') [0xAC00] (ascii ''title'') (ascii ''X'')
                 @ trans_unit (ascii ''X_body'') (ascii ''B'') [0xB098] (ascii ''body'') (ascii ''X'')),
              units = 2, fieldCount = 2,
              warned = [ascii ''Warning: No target translation found for UUID: Y'']\<rparr>"
proof -
  have u: "get_own (item3 ''Y'' ''Q'' ''R'') (ascii ''uuid'') = Some (JStr (ascii ''Y''))"
    by (simp add: item3_def get_own_def ascii_def)
  have t: "truthy (JStr (ascii ''Y''))" by (simp add: ascii_def)
  have none: "\<forall>item \<in> set [korean_target]. get_own item (ascii ''uuid'') \<noteq> Some (JStr (ascii ''Y''))"
    by (simp add: korean_target_def get_own_def ascii_def)
  have run: "generateXliffContent [item3 ''Y'' ''Q'' ''R'', item3 ''X'' ''A'' ''B''] [korean_target]
        (ascii ''en'') (ascii ''ko'')
       = Inr \<lparr>content = xliff_document (ascii ''en'') (ascii ''ko'')
                (trans_unit (ascii ''X_title'') (ascii ''A'') [0xAC00] (ascii ''title'') (ascii ''X'')
                 @ trans_unit (ascii ''X_body'') (ascii ''B'') [0xB098] (ascii ''body'') (ascii ''X'')),
              units = 2, fieldCount = 2,
              warned = [ascii ''Warning: No target translation found for UUID: Y'']\<rparr>"
    by (simp add: consolidate_eval ascii_def)
  from missing_target_is_skipped [OF u t none, of "[ascii ''title'', ascii ''body'']" initial_state "[]"]
    u t run
  show ?thesis by blast
qed


lemma bind_err_Inl_iff:
  "bind_err x f = Inl e \<longleftrightarrow> x = Inl e \<or> (\<exists>v. x = Inr v \<and> f v = Inl e)"
  by (cases x) simp_all

lemma escapeXml_string: "escapeXml (Json (JStr s)) = Inr (escape_string s)"
  by (cases s) (simp_all add: escape_string_def replace_all_def)

lemma escapeXml_error: "escapeXml v = Inl e \<Longrightarrow> e = TypeError"
  by (cases v rule: escapeXml.cases) (simp_all split: if_splits)

lemma emit_field_error:
  assumes "emit_field uuid sourceItem targetItem st fieldName = Inl e"
  shows "e = TypeError"
proof (cases "get_prop sourceItem fieldName")
  case Undefined
  with assms show ?thesis by (simp add: emit_field_def)
next
  case ProtoMember
  with assms show ?thesis by (simp add: emit_field_def)
next
  case (Json v)
  show ?thesis
  proof (cases v)
    case (JStr s)
    show ?thesis
    proof (cases "s = [] \<or> trim s = []")
      case True
      with assms Json JStr show ?thesis by (auto simp: emit_field_def)
    next
      case False
      with assms Json JStr
      have "escapeXml (if js_truthy (get_prop targetItem fieldName)
                       then get_prop targetItem fieldName else Json (JStr [])) = Inl e
            \<or> escapeXml (Json uuid) = Inl e"
        by (auto simp: emit_field_def Let_def escapeXml_string bind_err_Inl_iff
              simp del: escapeXml.simps)
      then show ?thesis by (auto dest: escapeXml_error)
    qed
  qed (use assms Json in \<open>simp_all add: emit_field_def\<close>)
qed

lemma for_each_error:
  "(\<And>st x. f st x = Inl e \<Longrightarrow> e = e0) \<Longrightarrow> for_each f st xs = Inl e \<Longrightarrow> e = e0"
proof (induction xs arbitrary: st)
  case Nil
  then show ?case by simp
next
  case (Cons x xs)
  from Cons.prems(2) have "f st x = Inl e \<or> (\<exists>st'. f st x = Inr st' \<and> for_each f st' xs = Inl e)"
    by (simp add: bind_err_Inl_iff)
  then show ?case
  proof
    assume "f st x = Inl e"
    then show ?thesis by (rule Cons.prems(1))
  next
    assume "\<exists>st'. f st x = Inr st' \<and> for_each f st' xs = Inl e"
    then obtain st' where "for_each f st' xs = Inl e" by blast
    with Cons.prems(1) show ?thesis by (rule Cons.IH)
  qed
qed

lemma process_item_error:
  assumes "process_item tmap fieldNames st sourceItem = Inl e"
  shows "e = TypeError"
proof (cases "get_own sourceItem (ascii ''uuid'')")
  case None
  with assms show ?thesis by (simp add: process_item_def)
next
  case (Some uuid)
  show ?thesis
  proof (cases "truthy uuid")
    case False
    with assms Some show ?thesis by (simp add: process_item_def)
  next
    case True
    show ?thesis
    proof (cases "tmap uuid")
      case None
      with assms Some True show ?thesis by (simp add: process_item_def)
    next
      case (Some targetItem)
      with assms \<open>get_own sourceItem (ascii ''uuid'') = Some uuid\<close> True
      have "for_each (emit_field uuid sourceItem targetItem) st fieldNames = Inl e"
        by (simp add: process_item_def)
      with emit_field_error show ?thesis by (rule for_each_error)
    qed
  qed
qed

lemma loop_error:
  assumes "for_each (process_item tmap fieldNames) st sourceData = Inl e"
  shows "e = TypeError"
  using process_item_error assms by (rule for_each_error)

lemma find_Some_split:
  "find P xs = Some x \<Longrightarrow>
   \<exists>before after. xs = before @ x # after \<and> P x \<and> (\<forall>y \<in> set before. \<not> P y)"
proof (induction xs)
  case Nil
  then show ?case by simp
next
  case (Cons y ys)
  show ?case
  proof (cases "P y")
    case True
    with Cons.prems have "y = x" by simp
    with True have "y # ys = [] @ x # ys \<and> P x \<and> (\<forall>y \<in> set []. \<not> P y)" by simp
    then show ?thesis by blast
  next
    case False
    with Cons.prems have "find P ys = Some x" by simp
    from Cons.IH [OF this] obtain before after
      where "ys = before @ x # after" "P x" "\<forall>y \<in> set before. \<not> P y" by blast
    with False have "y # ys = (y # before) @ x # after \<and> P x \<and> (\<forall>z \<in> set (y # before). \<not> P z)"
      by simp
    then show ?thesis by blast
  qed
qed

lemma translatableFields_own:
  "translatableFields item =
     filter (\<lambda>key. key \<noteq> ascii ''uuid''
                  \<and> (\<exists>s. get_own item key = Some (JStr s) \<and> \<not> list_all is_js_space s))
       (map fst item)"
  unfolding translatableFields_def
proof (rule filter_cong [OF refl])
  fix key assume "key \<in> set (map fst item)"
  then obtain v where v: "map_of item key = Some v"
    by (cases "map_of item key") (simp_all add: map_of_eq_None_iff)
  show "(key \<noteq> ascii ''uuid''
          \<and> (case get_prop item key of Json (JStr s) \<Rightarrow> trim s \<noteq> [] | _ \<Rightarrow> False))
        = (key \<noteq> ascii ''uuid''
          \<and> (\<exists>s. get_own item key = Some (JStr s) \<and> \<not> list_all is_js_space s))"
    by (cases v) (simp_all add: get_prop_def get_own_def v trim_Nil_iff)
qed

text \<open>
  C8, as the code has it. Generation throws the error "No valid source items found" exactly
  when no source record has a truthy uuid. Otherwise the translatable fields are taken
  from the first record with a truthy uuid: its own fields, in order, other than uuid,
  whose value is a string with at least one character that is not white space; and the
  loop over the source records runs with this one list of fields.
\<close>

theorem field_detection:
  "(generateXliffContent sourceData targetData sourceLang targetLang = Inl NoValidSourceItems
      \<longleftrightarrow> (\<forall>item \<in> set sourceData. \<not> is_truthy (get_own item (ascii ''uuid''))))
   \<and> (\<forall>item. firstSourceItem sourceData = Some item \<longrightarrow>
        (\<exists>before after. sourceData = before @ item # after
            \<and> is_truthy (get_own item (ascii ''uuid''))
            \<and> (\<forall>earlier \<in> set before. \<not> is_truthy (get_own earlier (ascii ''uuid''))))
        \<and> translatableFields item
            = filter (\<lambda>key. key \<noteq> ascii ''uuid''
                  \<and> (\<exists>s. get_own item key = Some (JStr s) \<and> \<not> list_all is_js_space s))
                (map fst item)
        \<and> generateXliffContent sourceData targetData sourceLang targetLang
            = bind_err (for_each (process_item (targetMap targetData) (translatableFields item))
                          initial_state sourceData)
                (\<lambda>st. Inr \<lparr>content = xliff_document sourceLang targetLang (transUnits st),
                            units = unitCount st,
                            fieldCount = length (translatableFields item),
                            warned = warnings st\<rparr>))"
proof (intro conjI allI impI)
  show "generateXliffContent sourceData targetData sourceLang targetLang = Inl NoValidSourceItems
      \<longleftrightarrow> (\<forall>item \<in> set sourceData. \<not> is_truthy (get_own item (ascii ''uuid'')))"
  proof (cases "firstSourceItem sourceData")
    case None
    then show ?thesis
      by (simp add: generateXliffContent_def) (simp add: firstSourceItem_def find_None_iff)
  next
    case (Some item)
    have "generateXliffContent sourceData targetData sourceLang targetLang \<noteq> Inl NoValidSourceItems"
    proof
      assume "generateXliffContent sourceData targetData sourceLang targetLang = Inl NoValidSourceItems"
      with Some have "for_each (process_item (targetMap targetData) (translatableFields item))
                          initial_state sourceData = Inl NoValidSourceItems"
        by (simp add: generateXliffContent_def Let_def bind_err_Inl_iff)
      then have "NoValidSourceItems = TypeError" by (rule loop_error)
      then show False by simp
    qed
    moreover have "\<not> (\<forall>item \<in> set sourceData. \<not> is_truthy (get_own item (ascii ''uuid'')))"
    proof -
      from Some have "find (\<lambda>item. is_truthy (get_own item (ascii ''uuid''))) sourceData \<noteq> None"
        by (simp add: firstSourceItem_def)
      then show ?thesis by (simp only: find_None_iff) blast
    qed
    ultimately show ?thesis by simp
  qed
next
  fix item assume first: "firstSourceItem sourceData = Some item"
  from first have "find (\<lambda>item. is_truthy (get_own item (ascii ''uuid''))) sourceData = Some item"
    by (simp add: firstSourceItem_def)
  from find_Some_split [OF this]
  show "\<exists>before after. sourceData = before @ item # after
            \<and> is_truthy (get_own item (ascii ''uuid''))
            \<and> (\<forall>earlier \<in> set before. \<not> is_truthy (get_own earlier (ascii ''uuid'')))"
    by blast
  show "translatableFields item
            = filter (\<lambda>key. key \<noteq> ascii ''uuid''
                  \<and> (\<exists>s. get_own item key = Some (JStr s) \<and> \<not> list_all is_js_space s))
                (map fst item)"
    by (rule translatableFields_own)
  show "generateXliffContent sourceData targetData sourceLang targetLang
            = bind_err (for_each (process_item (targetMap targetData) (translatableFields item))
                          initial_state sourceData)
                (\<lambda>st. Inr \<lparr>content = xliff_document sourceLang targetLang (transUnits st),
                            units = unitCount st,
                            fieldCount = length (translatableFields item),
                            warned = warnings st\<rparr>)"
    using first by (simp add: generateXliffContent_def Let_def)
qed




theorem field_detection_witness:
  "generateXliffContent [] [] (ascii ''en'') (ascii ''ko'') = Inl NoValidSourceItems
   \<and> firstSourceItem [[(ascii ''title'', JStr (ascii ''no id''))], item3 ''X'' ''A'' ''B'']
       = Some (item3 ''X'' ''A'' ''B'')
   \<and> translatableFields (item3 ''X'' ''A'' ''B'')
       = filter (\<lambda>key. key \<noteq> ascii ''uuid''
                  \<and> (\<exists>s. get_own (item3 ''X'' ''A'' ''B'') key = Some (JStr s)
                        \<and> \<not> list_all is_js_space s))
           (map fst (item3 ''X'' ''A'' ''B''))
   \<and> translatableFields (item3 ''X'' ''A'' ''B'') = [ascii ''title'', ascii ''body'']"
proof -
  have a: "generateXliffContent [] [] (ascii ''en'') (ascii ''ko'') = Inl NoValidSourceItems"
    using field_detection [of "[]" "[]" "ascii ''en''" "ascii ''ko''"] by simp
  have f: "firstSourceItem [[(ascii ''title'', JStr (ascii ''no id''))], item3 ''X'' ''A'' ''B'']
       = Some (item3 ''X'' ''A'' ''B'')"
    by (simp add: firstSourceItem_def item3_def get_own_def ascii_def)
  from field_detection [of "[[(ascii ''title'', JStr (ascii ''no id''))], item3 ''X'' ''A'' ''B'']"
      "[]" "ascii ''en''" "ascii ''ko''"] f
  have b: "translatableFields (item3 ''X'' ''A'' ''B'')
       = filter (\<lambda>key. key \<noteq> ascii ''uuid''
                  \<and> (\<exists>s. get_own (item3 ''X'' ''A'' ''B'') key = Some (JStr s)
                        \<and> \<not> list_all is_js_space s))
           (map fst (item3 ''X'' ''A'' ''B''))"
    by blast
  have c: "translatableFields (item3 ''X'' ''A'' ''B'') = [ascii ''title'', ascii ''body'']"
    by (simp add: consolidate_eval ascii_def)
  from a f b c show ?thesis by blast
qed

text \<open>
  Against C8 as stated: a title that is one space is a non-empty string, and is not among
  the translatable fields.
\<close>

theorem field_detection_blank_counterexample:
  "firstSourceItem [item3 ''X'' '' '' ''B''] = Some (item3 ''X'' '' '' ''B'')
   \<and> get_own (item3 ''X'' '' '' ''B'') (ascii ''title'') = Some (JStr (ascii '' ''))
   \<and> ascii '' '' \<noteq> []
   \<and> translatableFields (item3 ''X'' '' '' ''B'') = [ascii ''body'']"
  by (simp add: consolidate_eval ascii_def)









text \<open>
  What the statements above leave out. A target value that is truthy and not a string has
  no \<^verbatim>\<open>replace\<close> method, so escapeXml throws and the whole generation ends with a
  TypeError; the source side tests \<^verbatim>\<open>typeof sourceText !== 'string'\<close>, the target
  side has no such test. The same happens for a field that the target does not own and
  whose name is a member of \<^verbatim>\<open>Object.prototype\<close>, which then reads as that member,
  and for an identifier that is a number, which is given to escapeXml for the note.
\<close>

lemma non_string_target_throws:
  "generateXliffContent [item3 ''X'' ''A'' ''B'']
     [[(ascii ''uuid'', JStr (ascii ''X'')), (ascii ''title'', JNum 5)]] (ascii ''en'') (ascii ''ko'')
   = Inl TypeError"
  by (simp add: consolidate_eval ascii_def)

lemma inherited_target_field_throws:
  "generateXliffContent
     [[(ascii ''uuid'', JStr (ascii ''X'')), (ascii ''constructor'', JStr (ascii ''c''))]]
     [[(ascii ''uuid'', JStr (ascii ''X''))]] (ascii ''en'') (ascii ''ko'')
   = Inl TypeError"
  by (simp add: consolidate_eval object_prototype_names_def ascii_def)

lemma numeric_identifier_throws:
  "generateXliffContent
     [[(ascii ''uuid'', JNum 5), (ascii ''title'', JStr (ascii ''A''))]]
     [[(ascii ''uuid'', JNum 5), (ascii ''title'', JStr (ascii ''T''))]] (ascii ''en'') (ascii ''ko'')
   = Inl TypeError"
  by (simp add: consolidate_eval ascii_def)

end
